theory Spec2Isabelle
  imports Main "HOL-Library.Word" "HOL-Library.Signed_Division"
begin

unbundle bit_operations_syntax

section \<open>The commit log's offset index (server/commitlog/index.go)\<close>

text \<open>
  The index file of one log segment: fixed-width records of three 32-bit fields in a
  memory-mapped region, a write position, and the operations on them. The embedding
  follows the Go source function by function.

  \<^item> Go's \<open>int64\<close> and \<open>int32\<close> are \<open>64 word\<close> and \<open>32 word\<close>, read as signed
    with \<open>sint\<close>; arithmetic wraps, as Go's does. Go's \<open>int\<close> is taken at 64 bits
    (amd64, arm64).
  \<^item> The mapped region \<open>gommap.MMap\<close> is a byte list; its length is the mapping's
    length and never changes.
  \<^item> A Go \<open>error\<close> result is \<open>Inl (Err e)\<close>; a panic (a \<open>panic(err)\<close> of the
    source or a failed bounds check of the runtime) is \<open>Inl\<close> of a panic value.
  \<^item> The mutex \<open>mu\<close> and the file handle are left out: every operation is modelled as
    running alone. NewIndex, Sync, Close and Name act on the file and are not embedded;
    NewIndex leaves an index whose mapping has the length of the file and whose write
    position is that length.
\<close>

subsection \<open>Types, constants and results\<close>

type_synonym byte = "8 word"
type_synonym int32 = "32 word"
type_synonym int64 = "64 word"
type_synonym go_int = "64 word"

datatype error =
    EOF \<comment> \<open>\<open>io.EOF\<close>\<close>
  | ErrIndexCorrupt \<comment> \<open>\<open>ErrIndexCorrupt\<close>, "corrupt index file"\<close>
  | ErrBadTruncate \<comment> \<open>\<open>errors.New("bad truncate number")\<close>\<close>
  | ErrBinaryRead \<comment> \<open>\<open>errors.Wrap(err, "binary read failed")\<close>\<close>

datatype fault =
    Err error \<comment> \<open>the function returned this error\<close>
  | PanicErr error \<comment> \<open>\<open>panic(err)\<close>\<close>
  | PanicSliceBounds \<comment> \<open>runtime error: slice bounds out of range\<close>

definition offsetWidth :: nat where "offsetWidth = 4"
definition positionWidth :: nat where "positionWidth = 4"
definition sizeWidth :: nat where "sizeWidth = 4"
definition entryWidth :: nat where
  "entryWidth = offsetWidth + positionWidth + sizeWidth"

record Entry =
  Offset :: int64
  Position :: int64
  Size :: int32

text \<open>\<open>relEntry\<close>: an entry relative to the base offset (the fields carry a prefix, as a
  record's field names are global).\<close>

record relEntry =
  rel_Offset :: int32
  rel_Position :: int32
  rel_Size :: int32

record options =
  path :: string
  bytes :: int64
  baseOffset :: int64

record Index = options +
  mmap :: "byte list"
  position :: int64

text \<open>\<open>new(Entry)\<close> and \<open>&Entry{}\<close>: the zero value.\<close>

definition zeroEntry :: Entry where
  "zeroEntry = \<lparr>Offset = 0, Position = 0, Size = 0\<rparr>"

subsection \<open>The entry codec\<close>

text \<open>\<open>int32(x)\<close> of an \<open>int64\<close> keeps the low 32 bits (\<open>ucast\<close>); \<open>int64(x)\<close> of an
  \<open>int32\<close> extends the sign (\<open>scast\<close>).\<close>

definition newRelEntry :: "Entry \<Rightarrow> int64 \<Rightarrow> relEntry" where
  "newRelEntry e base =
     \<lparr>rel_Offset = ucast (Offset e - base),
      rel_Position = ucast (Position e),
      rel_Size = Size e\<rparr>"

definition fill :: "relEntry \<Rightarrow> Entry \<Rightarrow> int64 \<Rightarrow> Entry" where
  "fill rel e base =
     e\<lparr>Offset := base + scast (rel_Offset rel),
       Position := scast (rel_Position rel),
       Size := rel_Size rel\<rparr>"

subsection \<open>encoding/binary with proto.Encoding\<close>

datatype byte_order = BigEndian | LittleEndian

text \<open>Modelled from the spec: \<open>proto.Encoding\<close> is declared in server/proto, which is
  not among the sources; the spec (section 6) gives one fixed byte order for the whole
  file and takes it to be big-endian. Both orders are modelled, and the facts about the
  codec below are proved for either.\<close>

definition Encoding :: byte_order where
  "Encoding = BigEndian"

definition put_u32 :: "byte_order \<Rightarrow> int32 \<Rightarrow> byte list" where
  "put_u32 ord w =
     (case ord of
        BigEndian \<Rightarrow> [ucast (drop_bit 24 w), ucast (drop_bit 16 w), ucast (drop_bit 8 w), ucast w]
      | LittleEndian \<Rightarrow> [ucast w, ucast (drop_bit 8 w), ucast (drop_bit 16 w), ucast (drop_bit 24 w)])"

fun get_u32 :: "byte_order \<Rightarrow> byte list \<Rightarrow> int32" where
  "get_u32 BigEndian (a # b # c # d # _) =
     push_bit 24 (ucast a) OR push_bit 16 (ucast b) OR push_bit 8 (ucast c) OR ucast d"
| "get_u32 LittleEndian (a # b # c # d # _) =
     ucast a OR push_bit 8 (ucast b) OR push_bit 16 (ucast c) OR push_bit 24 (ucast d)"
| "get_u32 _ _ = 0"

text \<open>\<open>binary.Write(b, order, relEntry)\<close> appends the three fields in declaration order;
  on a \<open>bytes.Buffer\<close> and a struct of fixed-size fields it cannot fail.\<close>

definition binary_Write :: "byte_order \<Rightarrow> relEntry \<Rightarrow> byte list" where
  "binary_Write ord rel =
     put_u32 ord (rel_Offset rel) @ put_u32 ord (rel_Position rel) @ put_u32 ord (rel_Size rel)"

text \<open>\<open>binary.Read(b, order, rel)\<close> needs \<open>entryWidth\<close> bytes from the reader and fails on
  fewer.\<close>

definition binary_Read :: "byte_order \<Rightarrow> byte list \<Rightarrow> relEntry option" where
  "binary_Read ord p =
     (if length p < entryWidth then None
      else Some \<lparr>rel_Offset = get_u32 ord p,
                 rel_Position = get_u32 ord (drop offsetWidth p),
                 rel_Size = get_u32 ord (drop (offsetWidth + positionWidth) p)\<rparr>)"

subsection \<open>Slices and copy, as the Go runtime has them\<close>

text \<open>\<open>s[lo:hi]\<close> panics unless \<open>0 \<le> lo \<le> hi \<le> cap(s)\<close>; for the mapping the capacity is
  its length. \<open>s[lo:]\<close> is \<open>s[lo:len(s)]\<close>.\<close>

definition slice :: "byte list \<Rightarrow> int \<Rightarrow> int \<Rightarrow> byte list option" where
  "slice s lo hi =
     (if 0 \<le> lo \<and> lo \<le> hi \<and> hi \<le> int (length s)
      then Some (take (nat (hi - lo)) (drop (nat lo) s)) else None)"

definition slice_from :: "byte list \<Rightarrow> int \<Rightarrow> byte list option" where
  "slice_from s lo = slice s lo (int (length s))"

text \<open>\<open>copy(dst, src)\<close> copies \<open>min(len(dst), len(src))\<close> bytes and returns that number;
  the second component is \<open>dst\<close> afterwards.\<close>

definition copy :: "byte list \<Rightarrow> byte list \<Rightarrow> nat \<times> byte list" where
  "copy dst src =
     (let n = min (length dst) (length src) in (n, take n src @ drop n dst))"

subsection \<open>Reading and writing the mapped region\<close>

text \<open>\<open>ReadAt(p, offset)\<close>: the result is \<open>n\<close> and \<open>p\<close> after the copy.\<close>

definition ReadAt :: "Index \<Rightarrow> byte list \<Rightarrow> int64 \<Rightarrow> fault + (nat \<times> byte list)" where
  "ReadAt idx p off =
     (if sint (position idx) < sint (off + word_of_nat entryWidth) then Inl (Err EOF)
      else case slice (mmap idx) (sint off) (sint (off + word_of_nat entryWidth)) of
             None \<Rightarrow> Inl PanicSliceBounds
           | Some src \<Rightarrow> Inr (copy p src))"

text \<open>\<open>WriteAt(p, offset)\<close> copies into \<open>idx.mmap[offset:]\<close>: the result is \<open>n\<close> and the
  index with the region after the copy.\<close>

definition WriteAt :: "Index \<Rightarrow> byte list \<Rightarrow> int64 \<Rightarrow> fault + (nat \<times> Index)" where
  "WriteAt idx p off =
     (case slice_from (mmap idx) (sint off) of
        None \<Rightarrow> Inl PanicSliceBounds
      | Some dst \<Rightarrow>
          (let (n, dst') = copy dst p
           in Inr (n, idx\<lparr>mmap := take (nat (sint off)) (mmap idx) @ dst'\<rparr>)))"

text \<open>\<open>WriteEntries\<close>: the encoded entries are written at the write position, which then
  moves on by \<open>entryWidth * len(entries)\<close>; the count that WriteAt returns is dropped.
  A panic of WriteAt comes before any change.\<close>

definition WriteEntries :: "Index \<Rightarrow> Entry list \<Rightarrow> (fault + unit) \<times> Index" where
  "WriteEntries idx entries =
     (let b = concat (map (\<lambda>entry. binary_Write Encoding (newRelEntry entry (baseOffset idx))) entries)
      in case WriteAt idx b (position idx) of
           Inl f \<Rightarrow> (Inl f, idx)
         | Inr (n, idx') \<Rightarrow>
             (Inr (), idx'\<lparr>position := position idx' + word_of_nat entryWidth * word_of_nat (length entries)\<rparr>))"

text \<open>\<open>ReadEntryAtFileOffset(e, fileOffset)\<close>: the result is \<open>*e\<close> after the call; on an
  error \<open>*e\<close> is untouched.\<close>

definition ReadEntryAtFileOffset :: "Index \<Rightarrow> Entry \<Rightarrow> int64 \<Rightarrow> fault + Entry" where
  "ReadEntryAtFileOffset idx e fileOffset =
     (case ReadAt idx (replicate entryWidth 0) fileOffset of
        Inl f \<Rightarrow> Inl f
      | Inr (n, p) \<Rightarrow>
          (case binary_Read Encoding p of
             None \<Rightarrow> Inl (Err ErrBinaryRead)
           | Some rel \<Rightarrow> Inr (fill rel e (baseOffset idx))))"

definition ReadEntryAtLogOffset :: "Index \<Rightarrow> Entry \<Rightarrow> int64 \<Rightarrow> fault + Entry" where
  "ReadEntryAtLogOffset idx e logOffset =
     ReadEntryAtFileOffset idx e (logOffset * word_of_nat entryWidth)"

subsection \<open>Truncation\<close>

text \<open>\<open>TruncateEntries(number int)\<close>: the product is taken in \<open>int\<close> and wraps.\<close>

definition TruncateEntries :: "Index \<Rightarrow> go_int \<Rightarrow> (fault + unit) \<times> Index" where
  "TruncateEntries idx number =
     (if sint (position idx) < sint (number * word_of_nat entryWidth)
      then (Inl (Err ErrBadTruncate), idx)
      else (Inr (), idx\<lparr>position := number * word_of_nat entryWidth\<rparr>))"

subsection \<open>Recovery of the write position\<close>

text \<open>Go's division and remainder on \<open>int64\<close> round towards zero.\<close>

definition go_div :: "int64 \<Rightarrow> int64 \<Rightarrow> int64" where
  "go_div a b = word_of_int (sint a sdiv sint b)"

definition go_mod :: "int64 \<Rightarrow> int64 \<Rightarrow> int64" where
  "go_mod a b = word_of_int (sint a smod sint b)"

text \<open>
  \<open>sort.Search(n, f)\<close> of Go's standard library:
  \<^verbatim>\<open>
  i, j := 0, n
  for i < j {
      h := int(uint(i+j) >> 1)
      if !f(h) { i = h + 1 } else { j = h }
  }
  return i
  \<close>
  The predicate is a closure: it takes and returns the variables it captures (here the
  entry it reads into) and may panic, which ends the search. On arbitrary \<open>i\<close> and \<open>j\<close>
  the loop need not end, so the function is partial: \<open>None\<close> is a search that does not
  return.
\<close>

partial_function (option) Search_loop ::
    "(go_int \<Rightarrow> 's \<Rightarrow> fault + bool \<times> 's) \<Rightarrow> go_int \<Rightarrow> go_int \<Rightarrow> 's \<Rightarrow> (fault + go_int \<times> 's) option" where
  "Search_loop f i j s =
     (if sint i < sint j then
        (case f (drop_bit 1 (i + j)) s of
           Inl e \<Rightarrow> Some (Inl e)
         | Inr r \<Rightarrow>
             if \<not> fst r then Search_loop f (drop_bit 1 (i + j) + 1) j (snd r)
             else Search_loop f i (drop_bit 1 (i + j)) (snd r))
      else Some (Inr (i, s)))"

text \<open>The loop's own equation is its code equation: the search runs on concrete
  inputs.\<close>

declare Search_loop.simps [code]

definition Search :: "go_int \<Rightarrow> (go_int \<Rightarrow> 's \<Rightarrow> fault + bool \<times> 's) \<Rightarrow> 's \<Rightarrow> (fault + go_int \<times> 's) option" where
  "Search n f s = Search_loop f 0 n s"

text \<open>The closure of InitializePosition: it reads slot \<open>i\<close> into the captured entry,
  panics with the error of a failed read, and tests for the empty slot.\<close>

definition is_empty_slot :: "Index \<Rightarrow> go_int \<Rightarrow> Entry \<Rightarrow> fault + bool \<times> Entry" where
  "is_empty_slot idx i entry =
     (case ReadEntryAtFileOffset idx entry (i * word_of_nat entryWidth) of
        Inl (Err err) \<Rightarrow> Inl (PanicErr err)
      | Inl f \<Rightarrow> Inl f
      | Inr entry' \<Rightarrow> Inr (Position entry' = 0 \<and> Size entry' = 0, entry'))"

text \<open>The first part of InitializePosition: the search for the first empty slot among
  \<open>n = int(idx.bytes / entryWidth)\<close> slots.\<close>

definition first_empty_slot :: "Index \<Rightarrow> (fault + go_int \<times> Entry) option" where
  "first_empty_slot idx =
     Search (go_div (bytes idx) (word_of_nat entryWidth)) (is_empty_slot idx) zeroEntry"

text \<open>The rest of InitializePosition, from the slot \<open>i\<close> that the search returned: the
  result is \<open>(nil, nil)\<close> as \<open>Inr None\<close>, \<open>(nil, err)\<close> as \<open>Inl (Err err)\<close> and
  \<open>(entry, nil)\<close> as \<open>Inr (Some entry)\<close>, with the index as the call leaves it.\<close>

definition position_from_slot :: "Index \<Rightarrow> go_int \<Rightarrow> Entry \<Rightarrow> (fault + Entry option) \<times> Index" where
  "position_from_slot idx i entry =
     (let idx' = idx\<lparr>position := i * word_of_nat entryWidth\<rparr> in
      if i = 0 then (Inr None, idx')
      else case ReadEntryAtFileOffset idx' entry ((i - 1) * word_of_nat entryWidth) of
             Inl f \<Rightarrow> (Inl f, idx')
           | Inr entry' \<Rightarrow>
               if sint (Offset entry') < sint (baseOffset idx') then (Inl (Err ErrIndexCorrupt), idx')
               else if go_mod (position idx') (word_of_nat entryWidth) \<noteq> 0
                 then (Inl (Err ErrIndexCorrupt), idx')
               else (Inr (Some entry'), idx'))"

definition InitializePosition :: "Index \<Rightarrow> ((fault + Entry option) \<times> Index) option" where
  "InitializePosition idx =
     (case first_empty_slot idx of
        None \<Rightarrow> None
      | Some (Inl f) \<Rightarrow> Some (Inl f, idx)
      | Some (Inr (i, entry)) \<Rightarrow> Some (position_from_slot idx i entry))"

subsection \<open>The scanner\<close>

text \<open>The scanner's \<open>idx\<close> is a pointer to an index that Scan only reads: it is an
  argument of Scan. The entry that Scan returns is the scanner's own.\<close>

record IndexScanner =
  entry :: Entry
  offset :: int64

definition NewIndexScanner :: IndexScanner where
  "NewIndexScanner = \<lparr>entry = zeroEntry, offset = 0\<rparr>"

definition Scan :: "Index \<Rightarrow> IndexScanner \<Rightarrow> (fault + Entry) \<times> IndexScanner" where
  "Scan idx s =
     (case ReadEntryAtLogOffset idx (entry s) (offset s) of
        Inl f \<Rightarrow> (Inl f, s)
      | Inr e \<Rightarrow>
          if Offset e = 0 \<and> offset s \<noteq> 0 then (Inl (Err EOF), s\<lparr>entry := e\<rparr>)
          else (Inr e, s\<lparr>entry := e, offset := offset s + 1\<rparr>))"

section \<open>Callers and terms of the properties\<close>

text \<open>An entry is representable under a base offset when its relative offset and its
  position fit the signed 32-bit fields of the record; the size is an \<open>int32\<close> already.
  The spec calls such entries valid (section 4.1: a spread beyond the field is a caller
  error).\<close>

definition representable :: "int64 \<Rightarrow> Entry \<Rightarrow> bool" where
  "representable base e \<longleftrightarrow>
     - (2 ^ 31) \<le> sint (Offset e) - sint base \<and> sint (Offset e) - sint base < 2 ^ 31 \<and>
     - (2 ^ 31) \<le> sint (Position e) \<and> sint (Position e) < 2 ^ 31"

text \<open>The twelve bytes that WriteEntries writes for one entry, and the twelve bytes of
  slot \<open>j\<close> of a region.\<close>

definition encode_entry :: "int64 \<Rightarrow> Entry \<Rightarrow> byte list" where
  "encode_entry base e = binary_Write Encoding (newRelEntry e base)"

definition slot_bytes :: "byte list \<Rightarrow> nat \<Rightarrow> byte list" where
  "slot_bytes m j = take entryWidth (drop (entryWidth * j) m)"

text \<open>Successive single-entry appends, as a caller makes them: the first panic ends the
  run.\<close>

fun append_each :: "Index \<Rightarrow> Entry list \<Rightarrow> fault + Index" where
  "append_each idx [] = Inr idx"
| "append_each idx (e # es) =
     (case WriteEntries idx [e] of
        (Inl f, _) \<Rightarrow> Inl f
      | (Inr _, idx') \<Rightarrow> append_each idx' es)"

text \<open>The results of \<open>n\<close> successive calls of Scan on one scanner.\<close>

fun scan_n :: "Index \<Rightarrow> IndexScanner \<Rightarrow> nat \<Rightarrow> (fault + Entry) list" where
  "scan_n idx s 0 = []"
| "scan_n idx s (Suc n) = fst (Scan idx s) # scan_n idx (snd (Scan idx s)) n"

section \<open>Example indexes\<close>

text \<open>A fresh index of three slots over base offset 100, before any append: the region
  is all zeros and the write position has been set to 0. The entries are those of the
  spec's scenario (section 8).\<close>

definition idx_example :: Index where
  "idx_example = \<lparr>path = ''00000000000000000100.index'', bytes = 36, baseOffset = 100,
     mmap = replicate 36 0, position = 0\<rparr>"

definition entry_a :: Entry where
  "entry_a = \<lparr>Offset = 100, Position = 0, Size = 50\<rparr>"

definition entry_b :: Entry where
  "entry_b = \<lparr>Offset = 101, Position = 50, Size = 60\<rparr>"

definition entry_c :: Entry where
  "entry_c = \<lparr>Offset = 102, Position = 110, Size = 40\<rparr>"

text \<open>The index of the example after its first two entries were appended; the same
  index reopened, with the write position at the length of the mapping; and an empty
  index of a single slot.\<close>

definition idx_two :: Index where
  "idx_two = idx_example\<lparr>mmap := encode_entry 100 entry_a @ encode_entry 100 entry_b @ replicate 12 0,
     position := 24\<rparr>"

definition idx_reopened :: Index where
  "idx_reopened = idx_two\<lparr>position := 36\<rparr>"

definition idx_one_slot :: Index where
  "idx_one_slot = \<lparr>path = ''00000000000000000100.index'', bytes = 12, baseOffset = 100,
     mmap = replicate 12 0, position = 0\<rparr>"

text \<open>A reopened index whose only entry was written relative to another base: its slot
  0 holds the relative offset -1.\<close>

definition idx_corrupt :: Index where
  "idx_corrupt = idx_example\<lparr>mmap := encode_entry 100 \<lparr>Offset = 99, Position = 7, Size = 7\<rparr> @ replicate 24 0,
     position := 36\<rparr>"

text \<open>An entry whose position does not fit the 32-bit field, and one whose offset is
  below the base offset 100 of the examples: the entry that slot 0 of the index above
  holds.\<close>

definition entry_wide :: Entry where
  "entry_wide = \<lparr>Offset = 102, Position = 4294967301, Size = 7\<rparr>"

definition entry_low :: Entry where
  "entry_low = \<lparr>Offset = 99, Position = 7, Size = 7\<rparr>"

text \<open>The index of one slot after two single-entry appends: the write position counts
  two entries and the mapping holds the first. And the index of three slots after
  \<open>entry_wide\<close> was appended.\<close>

definition idx_overfilled :: Index where
  "idx_overfilled = idx_one_slot\<lparr>mmap := encode_entry 100 entry_a, position := 24\<rparr>"

definition idx_wide :: Index where
  "idx_wide = idx_example\<lparr>mmap := encode_entry 100 entry_wide @ replicate 24 0, position := 12\<rparr>"

text \<open>An empty index of three slots over the base offset -1, two entries with the
  offsets -1 and 0, and the index after the two were appended.\<close>

definition idx_neg :: Index where
  "idx_neg = \<lparr>path = ''neg.index'', bytes = 36, baseOffset = - 1, mmap = replicate 36 0, position = 0\<rparr>"

definition neg_a :: Entry where
  "neg_a = \<lparr>Offset = - 1, Position = 0, Size = 5\<rparr>"

definition neg_b :: Entry where
  "neg_b = \<lparr>Offset = 0, Position = 5, Size = 5\<rparr>"

definition idx_neg_two :: Index where
  "idx_neg_two = idx_neg\<lparr>mmap := encode_entry (- 1) neg_a @ encode_entry (- 1) neg_b @ replicate 12 0,
     position := 24\<rparr>"

section \<open>Facts about the embedding\<close>

subsection \<open>Machine integers\<close>

text \<open>Where a sum, a difference or a product of \<open>int64\<close> values stays within
  \<open>-2^63 \<dots> 2^63 - 1\<close>, \<open>sint\<close> of the word operation is the operation on the integers;
  the midpoint of \<open>sort.Search\<close> and Go's division by \<open>entryWidth\<close> are read the same
  way.\<close>

lemma sint_word_of_int_64:
  "- (2 ^ 63) \<le> k \<Longrightarrow> k < 2 ^ 63 \<Longrightarrow> sint (word_of_int k :: 64 word) = k"
  by (simp add: sint_sbintrunc' signed_take_bit_int_eq_self)

lemma sint_word_of_nat_64:
  "n < 2 ^ 63 \<Longrightarrow> sint (word_of_nat n :: 64 word) = int n"
  using sint_word_of_int_64 [of "int n"] by simp

lemma word_of_nat_sint:
  fixes w :: "64 word"
  assumes "0 \<le> sint w"
  shows "w = word_of_nat (nat (sint w))" and "nat (sint w) < 2 ^ 63"
proof -
  have "sint w < 2 ^ 63" using sint_lt [of w] by simp
  with assms show "nat (sint w) < 2 ^ 63" by simp
  have "word_of_int (sint w) = w" by simp
  with assms show "w = word_of_nat (nat (sint w))"
    by (metis int_nat_eq of_int_of_nat_eq)
qed

lemma position_of_nat:
  fixes w :: int64
  assumes "0 \<le> sint w"
  shows "w = word_of_nat (nat (sint w))"
  using word_of_nat_sint(1) [OF assms] .

lemma sint_sub_64:
  fixes a b :: "64 word"
  assumes "- (2 ^ 63) \<le> sint a - sint b" "sint a - sint b < 2 ^ 63"
  shows "sint (a - b) = sint a - sint b"
proof -
  have "a - b = word_of_int (sint a - sint b)" by simp
  then show ?thesis using assms sint_word_of_int_64 by metis
qed

lemma sint_add_64:
  fixes a b :: "64 word"
  assumes "- (2 ^ 63) \<le> sint a + sint b" "sint a + sint b < 2 ^ 63"
  shows "sint (a + b) = sint a + sint b"
proof -
  have "a + b = word_of_int (sint a + sint b)" by simp
  then show ?thesis using assms sint_word_of_int_64 by metis
qed

lemma scast_ucast_32_64:
  fixes x :: "64 word"
  assumes "- (2 ^ 31) \<le> sint x" "sint x < 2 ^ 31"
  shows "scast (ucast x :: 32 word) = x"
proof (rule bit_word_eqI)
  fix n assume n: "n < LENGTH(64)"
  have k: "signed_take_bit 31 (sint x) = sint x"
    using assms by (simp add: signed_take_bit_int_eq_self)
  have "bit x n = bit (sint x) n"
    using n by (simp add: bit_sint_iff min_def)
  also have "\<dots> = bit (signed_take_bit 31 (sint x)) n"
    by (simp only: k)
  also have "\<dots> = bit (sint x) (min 31 n)"
    by (simp add: bit_signed_take_bit_iff)
  also have "\<dots> = bit x (min 31 n)"
    using n by (simp add: bit_sint_iff min_def)
  finally have a: "bit x n = bit x (min 31 n)" .
  have "bit (scast (ucast x :: 32 word) :: 64 word) n = bit x (min 31 n)"
    using n by (simp add: bit_signed_iff bit_unsigned_iff min_def)
  with a show "bit (scast (ucast x :: 32 word) :: 64 word) n = bit x n"
    by simp
qed

lemma entryWidth_eq: "entryWidth = 12"
  by (simp add: entryWidth_def offsetWidth_def positionWidth_def sizeWidth_def)

text \<open>The product with \<open>entryWidth\<close> where it does not wrap.\<close>

lemma sint_mult_12:
  fixes n :: "64 word"
  assumes "- (2 ^ 63) \<le> sint n * 12" "sint n * 12 < 2 ^ 63"
  shows "sint (n * word_of_nat entryWidth) = sint n * 12"
proof -
  have "n * word_of_nat entryWidth = word_of_int (sint n * 12)"
    by (simp add: entryWidth_eq)
  then show ?thesis using assms sint_word_of_int_64 by metis
qed

text \<open>The sum \<open>offset + entryWidth\<close> where it does not wrap.\<close>

lemma sint_off_plus_width:
  assumes "o' + 12 < 2 ^ 63"
  shows "sint (word_of_nat o' + word_of_nat entryWidth :: 64 word) = int o' + 12"
proof -
  have "(word_of_nat o' + word_of_nat entryWidth :: 64 word) = word_of_nat (o' + 12)"
    by (simp add: entryWidth_eq)
  then show ?thesis using assms sint_word_of_nat_64 [of "o' + 12"] by simp
qed

lemma sint_plus_width:
  fixes f :: int64
  assumes "sint f + 12 < 2 ^ 63"
  shows "sint (f + word_of_nat entryWidth) = sint f + 12"
proof -
  have "- (2 ^ 63) \<le> sint f" using sint_ge [of f] by simp
  then show ?thesis using assms sint_add_64 [of f 12] by (simp add: entryWidth_eq)
qed

lemma sint_plus_width_le:
  fixes f :: int64
  assumes "sint f \<le> sint (f + word_of_nat entryWidth)"
  shows "sint (f + word_of_nat entryWidth) = sint f + 12"
proof (cases "sint f + 12 < 2 ^ 63")
  case True
  then show ?thesis by (rule sint_plus_width)
next
  case False
  have "f + word_of_nat entryWidth = word_of_int (sint f + 12 - 2 ^ 64)"
    by (simp add: entryWidth_eq)
  moreover have "sint f < 2 ^ 63" using sint_lt [of f] by simp
  ultimately have "sint (f + word_of_nat entryWidth) = sint f + 12 - 2 ^ 64"
    using False sint_word_of_int_64 [of "sint f + 12 - 2 ^ 64"] by simp
  with assms show ?thesis by simp
qed

lemma slot_offset_word:
  "(word_of_nat j * word_of_nat entryWidth :: int64) = word_of_nat (12 * j)"
  by (simp add: entryWidth_eq)

lemma sint_slot_offset:
  "12 * j < 2 ^ 63 \<Longrightarrow> sint (word_of_nat j * word_of_nat entryWidth :: int64) = int (12 * j)"
  by (simp only: slot_offset_word sint_word_of_nat_64)

lemma drop_bit_1_of_nat:
  assumes "n < 2 ^ 64"
  shows "drop_bit 1 (word_of_nat n :: 64 word) = word_of_nat (n div 2)"
proof -
  have "unat (word_of_nat n :: 64 word) = n"
    using assms by (simp add: unat_of_nat take_bit_nat_eq_self)
  then have "unat (drop_bit 1 (word_of_nat n :: 64 word)) = n div 2"
    by (simp add: unat_drop_bit_eq drop_bit_eq_div unat_div)
  moreover have "unat (word_of_nat (n div 2) :: 64 word) = n div 2"
    using assms by (simp add: unat_of_nat take_bit_nat_eq_self)
  ultimately show ?thesis
    by (simp add: word_unat_eq_iff)
qed

lemma drop_bit_1_of_nat_add:
  assumes "a + b < 2 ^ 64"
  shows "drop_bit 1 (word_of_nat a + word_of_nat b :: 64 word) = word_of_nat ((a + b) div 2)"
  using drop_bit_1_of_nat [OF assms] by (simp only: of_nat_add)

lemma sint_midpoint:
  fixes i j :: "64 word"
  assumes "0 \<le> sint i" "sint i < sint j"
  shows "sint (drop_bit 1 (i + j)) = (sint i + sint j) div 2"
proof -
  define a b where "a = nat (sint i)" and "b = nat (sint j)"
  have i: "i = word_of_nat a" and a: "a < 2 ^ 63"
    using word_of_nat_sint [of i] assms by (simp_all add: a_def)
  have j: "j = word_of_nat b" and b: "b < 2 ^ 63"
    using word_of_nat_sint [of j] assms by (simp_all add: b_def)
  have "drop_bit 1 (i + j) = word_of_nat ((a + b) div 2)"
    unfolding i j using a b by (intro drop_bit_1_of_nat_add) simp
  moreover have "sint (word_of_nat ((a + b) div 2) :: 64 word) = int ((a + b) div 2)"
    using a b by (intro sint_word_of_nat_64) simp
  moreover have "int a = sint i" "int b = sint j"
    using assms by (simp_all add: a_def b_def)
  ultimately show ?thesis
    by (simp add: zdiv_int)
qed

lemma sint_succ_below:
  fixes h j :: "64 word"
  assumes "sint h < sint j"
  shows "sint (h + 1) = sint h + 1"
proof -
  have "sint j < 2 ^ 63" using sint_lt [of j] by simp
  moreover have "- (2 ^ 63) \<le> sint h" using sint_ge [of h] by simp
  ultimately show ?thesis
    using assms sint_add_64 [of h 1] by simp
qed

lemma sdiv_12_nonneg:
  "0 \<le> k \<Longrightarrow> k sdiv 12 = k div 12" for k :: int
  by (simp add: signed_divide_int_def sgn_if)

lemma sdiv_12_neg:
  "k < 0 \<Longrightarrow> k sdiv 12 = - ((- k) div 12)" for k :: int
  by (simp add: signed_divide_int_def sgn_if)

lemma sdiv_12_bounds:
  fixes k :: int
  shows "0 \<le> k \<Longrightarrow> 0 \<le> k sdiv 12" and "0 \<le> k \<Longrightarrow> 12 * (k sdiv 12) \<le> k"
    and "k < 0 \<Longrightarrow> k sdiv 12 \<le> 0" and "k < 0 \<Longrightarrow> k \<le> k sdiv 12"
proof -
  show "0 \<le> k \<Longrightarrow> 0 \<le> k sdiv 12" by (simp add: sdiv_12_nonneg)
  show "0 \<le> k \<Longrightarrow> 12 * (k sdiv 12) \<le> k" by (simp add: sdiv_12_nonneg)
  show "k < 0 \<Longrightarrow> k sdiv 12 \<le> 0" by (simp add: sdiv_12_neg)
  show "k < 0 \<Longrightarrow> k \<le> k sdiv 12"
  proof -
    assume k: "k < 0"
    then have "0 \<le> (- k) div 12" and "12 * ((- k) div 12) \<le> - k" by simp_all
    then have "(- k) div 12 \<le> - k" by linarith
    with k show ?thesis by (simp add: sdiv_12_neg)
  qed
qed

lemma sint_go_div_12:
  "sint (go_div b (word_of_nat entryWidth)) = sint b sdiv 12"
proof -
  have r: "- (2 ^ 63) \<le> sint b" "sint b < 2 ^ 63"
    using sint_ge [of b] sint_lt [of b] by simp_all
  have "- (2 ^ 63) \<le> sint b sdiv 12 \<and> sint b sdiv 12 < 2 ^ 63"
  proof (cases "0 \<le> sint b")
    case True
    from sdiv_12_bounds(1,2) [OF True] r show ?thesis by linarith
  next
    case False
    then have "sint b < 0" by simp
    from sdiv_12_bounds(3,4) [OF this] r show ?thesis by linarith
  qed
  then show ?thesis
    by (simp add: go_div_def entryWidth_eq sint_word_of_int_64)
qed

lemma go_div_slots:
  assumes "0 \<le> sint b"
  shows "go_div b (word_of_nat entryWidth) = word_of_nat (nat (sint b div 12))"
proof -
  have "sint (go_div b (word_of_nat entryWidth)) = sint b div 12"
    using assms by (simp add: sint_go_div_12 sdiv_12_nonneg)
  moreover have "0 \<le> sint b div 12" using assms by simp
  ultimately have "0 \<le> sint (go_div b (word_of_nat entryWidth))" by simp
  from position_of_nat [OF this] show ?thesis
    by (simp only: \<open>sint (go_div b (word_of_nat entryWidth)) = sint b div 12\<close>)
qed

lemma go_mod_12:
  assumes "sint p = 12 * q"
  shows "go_mod p (word_of_nat entryWidth) = 0"
  using assms by (simp add: go_mod_def entryWidth_eq signed_modulo_int_def)

subsection \<open>The codec\<close>

text \<open>The four bytes of a field decode to the field, in either byte order; so a
  record read back is the record written, and the record of a representable entry fills
  to the entry.\<close>

lemma get_put_u32: "get_u32 ord (put_u32 ord w @ rest) = w"
proof (cases ord)
  case BigEndian
  have "push_bit 24 (ucast (ucast (drop_bit 24 w) :: byte)) OR push_bit 16 (ucast (ucast (drop_bit 16 w) :: byte))
        OR push_bit 8 (ucast (ucast (drop_bit 8 w) :: byte)) OR ucast (ucast w :: byte) = w"
  proof (rule bit_word_eqI)
    fix n assume "n < LENGTH(32)"
    then show "bit (push_bit 24 (ucast (ucast (drop_bit 24 w) :: byte)) OR push_bit 16 (ucast (ucast (drop_bit 16 w) :: byte))
        OR push_bit 8 (ucast (ucast (drop_bit 8 w) :: byte)) OR ucast (ucast w :: byte) :: 32 word) n = bit w n"
      by (cases "n < 8"; cases "n < 16"; cases "n < 24") (auto simp: bit_simps)
  qed
  with BigEndian show ?thesis by (simp add: put_u32_def)
next
  case LittleEndian
  have "ucast (ucast w :: byte) OR push_bit 8 (ucast (ucast (drop_bit 8 w) :: byte))
        OR push_bit 16 (ucast (ucast (drop_bit 16 w) :: byte)) OR push_bit 24 (ucast (ucast (drop_bit 24 w) :: byte)) = w"
  proof (rule bit_word_eqI)
    fix n assume "n < LENGTH(32)"
    then show "bit (ucast (ucast w :: byte) OR push_bit 8 (ucast (ucast (drop_bit 8 w) :: byte))
        OR push_bit 16 (ucast (ucast (drop_bit 16 w) :: byte)) OR push_bit 24 (ucast (ucast (drop_bit 24 w) :: byte)) :: 32 word) n = bit w n"
      by (cases "n < 8"; cases "n < 16"; cases "n < 24") (auto simp: bit_simps)
  qed
  with LittleEndian show ?thesis by (simp add: put_u32_def)
qed

lemma length_put_u32: "length (put_u32 ord w) = 4"
  by (cases ord) (simp_all add: put_u32_def)

lemma binary_Read_Write: "binary_Read ord (binary_Write ord r) = Some r"
  by (simp add: binary_Read_def binary_Write_def length_put_u32 get_put_u32 entryWidth_def offsetWidth_def positionWidth_def sizeWidth_def get_put_u32 [where rest = "[]", simplified])

lemma length_binary_Write: "length (binary_Write ord r) = 12"
  by (simp add: binary_Write_def length_put_u32)

lemma binary_Read_zero: "binary_Read ord (replicate 12 0) = Some \<lparr>rel_Offset = 0, rel_Position = 0, rel_Size = 0\<rparr>"
  apply (cases ord) apply (simp_all add: binary_Read_def entryWidth_def offsetWidth_def positionWidth_def sizeWidth_def numeral_eq_Suc)
  done

lemma fill_newRelEntry:
  assumes "representable base e"
  shows "fill (newRelEntry e base) e' base = e"
proof -
  have "sint (Offset e - base) = sint (Offset e) - sint base"
    using assms by (intro sint_sub_64) (auto simp: representable_def)
  then have "scast (ucast (Offset e - base) :: 32 word) = Offset e - base"
    using assms by (intro scast_ucast_32_64) (auto simp: representable_def)
  moreover have "scast (ucast (Position e) :: 32 word) = Position e"
    using assms by (intro scast_ucast_32_64) (auto simp: representable_def)
  ultimately show ?thesis
    by (simp add: fill_def newRelEntry_def)
qed

lemma length_encode_entry: "length (encode_entry base e) = 12"
  by (simp add: encode_entry_def length_binary_Write)

lemma length_concat_encode: "length (concat (map (encode_entry base) es)) = 12 * length es"
  by (induction es) (simp_all add: length_encode_entry)

lemma binary_Read_encode_entry:
  "binary_Read Encoding (encode_entry base e) = Some (newRelEntry e base)"
  by (simp add: encode_entry_def binary_Read_Write)

subsection \<open>Slots of the mapped region\<close>

text \<open>The slots of a region that starts with encoded entries, and of
  zeroed bytes.\<close>

lemma slot_bytes_concat:
  "j < length es \<Longrightarrow> slot_bytes (concat (map (encode_entry base) es) @ rest) j = encode_entry base (es ! j)"
proof (induction es arbitrary: j)
  case Nil then show ?case by simp
next
  case (Cons e es)
  show ?case
  proof (cases j)
    case 0
    then show ?thesis by (simp add: slot_bytes_def entryWidth_eq length_encode_entry)
  next
    case (Suc i)
    with Cons.prems have "i < length es" by simp
    from Cons.IH [OF this] Suc show ?thesis
      by (simp add: slot_bytes_def entryWidth_eq length_encode_entry)
  qed
qed

lemma slot_bytes_append_right:
  "length A = 12 * a \<Longrightarrow> slot_bytes (A @ B) (a + j) = slot_bytes B j"
  by (simp add: slot_bytes_def entryWidth_eq algebra_simps)

lemma slot_bytes_replicate:
  "12 * (j + 1) \<le> n \<Longrightarrow> slot_bytes (replicate n 0) j = replicate 12 0"
  by (simp add: slot_bytes_def entryWidth_eq min_def)

subsection \<open>Reads\<close>

text \<open>A read inside the mapping and below the write position decodes the twelve bytes
  at its offset; a read fails with \<open>io.EOF\<close> exactly on the comparison with the write
  position; a read that succeeded succeeds again under any write position that covers
  it.\<close>

lemma ReadAt_inside:
  assumes "o' + 12 \<le> length (mmap idx)"
    and "int o' + 12 \<le> sint (position idx)" "length p = 12"
  shows "ReadAt idx p (word_of_nat o') = Inr (12, take 12 (drop o' (mmap idx)))"
proof -
  have "sint (position idx) < 2 ^ 63"
    using sint_lt [of "position idx"] by simp
  with assms(2) have "int (o' + 12) < 2 ^ 63" by simp
  then have o: "o' + 12 < 2 ^ 63" by (simp only: of_nat_less_numeral_power_cancel_iff)
  have a: "sint (word_of_nat o' + word_of_nat entryWidth :: 64 word) = int o' + 12"
    using o by (rule sint_off_plus_width)
  have b: "sint (word_of_nat o' :: 64 word) = int o'"
    using o by (intro sint_word_of_nat_64) simp
  show ?thesis using assms
    by (simp add: ReadAt_def a b slice_def copy_def Let_def)
qed

lemma ReadEntryAtFileOffset_inside:
  assumes "o' + 12 \<le> length (mmap idx)"
    and "int o' + 12 \<le> sint (position idx)"
  shows "\<exists>rel. binary_Read Encoding (take 12 (drop o' (mmap idx))) = Some rel \<and>
     ReadEntryAtFileOffset idx e (word_of_nat o') = Inr (fill rel e (baseOffset idx))"
proof -
  have "length (take 12 (drop o' (mmap idx))) = 12" using assms by simp
  then obtain rel where "binary_Read Encoding (take 12 (drop o' (mmap idx))) = Some rel"
    by (simp add: binary_Read_def entryWidth_eq)
  then show ?thesis using assms
    by (simp add: ReadEntryAtFileOffset_def ReadAt_inside entryWidth_eq)
qed

lemma ReadEntryAtFileOffset_EOF_iff:
  "ReadEntryAtFileOffset idx e f = Inl (Err EOF) \<longleftrightarrow>
     sint (position idx) < sint (f + word_of_nat entryWidth)"
  by (auto simp: ReadEntryAtFileOffset_def ReadAt_def split: option.splits sum.splits prod.splits)

lemma ReadEntryAtFileOffset_Inr_bounds:
  assumes "ReadEntryAtFileOffset idx e f = Inr x"
  shows "sint (f + word_of_nat entryWidth) \<le> sint (position idx)" and "0 \<le> sint f"
    and "sint f \<le> sint (f + word_of_nat entryWidth)"
    and "sint (f + word_of_nat entryWidth) \<le> int (length (mmap idx))"
  using assms
  by (auto simp: ReadEntryAtFileOffset_def ReadAt_def slice_def split: if_splits option.splits)

lemma ReadEntryAtFileOffset_again:
  assumes "ReadEntryAtFileOffset idx e0 f = Inr x0"
    and "sint (f + word_of_nat entryWidth) \<le> sint p"
  shows "\<exists>rel. binary_Read Encoding (take entryWidth (drop (nat (sint f)) (mmap idx))) = Some rel
     \<and> ReadEntryAtFileOffset (idx\<lparr>position := p\<rparr>) e f = Inr (fill rel e (baseOffset idx))"
proof -
  note b = ReadEntryAtFileOffset_Inr_bounds [OF assms(1)]
  have w: "sint (f + word_of_nat entryWidth) = sint f + 12"
    using b(3) by (rule sint_plus_width_le)
  have f: "f = word_of_nat (nat (sint f))"
    using b(2) by (rule position_of_nat)
  have "\<exists>rel. binary_Read Encoding (take 12 (drop (nat (sint f)) (mmap (idx\<lparr>position := p\<rparr>)))) = Some rel \<and>
     ReadEntryAtFileOffset (idx\<lparr>position := p\<rparr>) e (word_of_nat (nat (sint f)))
       = Inr (fill rel e (baseOffset (idx\<lparr>position := p\<rparr>)))"
    using b w assms(2) by (intro ReadEntryAtFileOffset_inside) auto
  with f show ?thesis by (simp add: entryWidth_eq)
qed

lemma ReadEntryAtLogOffset_slot:
  assumes "12 * (j + 1) \<le> length (mmap idx)"
    and "12 * (int j + 1) \<le> sint (position idx)"
    and "binary_Read Encoding (slot_bytes (mmap idx) j) = Some rel"
  shows "ReadEntryAtLogOffset idx e (word_of_nat j) = Inr (fill rel e (baseOffset idx))"
proof -
  have a: "(word_of_nat j * word_of_nat entryWidth :: 64 word) = word_of_nat (12 * j)"
    by (simp add: entryWidth_eq)
  have "\<exists>rel. binary_Read Encoding (take 12 (drop (12 * j) (mmap idx))) = Some rel \<and>
     ReadEntryAtFileOffset idx e (word_of_nat (12 * j)) = Inr (fill rel e (baseOffset idx))"
    using assms by (intro ReadEntryAtFileOffset_inside) auto
  with assms(3) have "ReadEntryAtFileOffset idx e (word_of_nat (12 * j)) = Inr (fill rel e (baseOffset idx))"
    by (auto simp: slot_bytes_def entryWidth_eq)
  then show ?thesis
    by (simp only: ReadEntryAtLogOffset_def a)
qed

text \<open>Reading a slot that holds the encoding of a representable entry.\<close>

lemma ReadEntryAtLogOffset_encoded:
  assumes "12 * (j + 1) \<le> length (mmap idx)"
    and "12 * (int j + 1) \<le> sint (position idx)"
    and "slot_bytes (mmap idx) j = encode_entry (baseOffset idx) x"
    and "representable (baseOffset idx) x"
  shows "ReadEntryAtLogOffset idx e (word_of_nat j) = Inr x"
proof -
  have "binary_Read Encoding (slot_bytes (mmap idx) j) = Some (newRelEntry x (baseOffset idx))"
    using assms(3) by (simp add: encode_entry_def binary_Read_Write)
  from ReadEntryAtLogOffset_slot [OF assms(1,2) this] assms(4) show ?thesis
    by (simp add: fill_newRelEntry)
qed

lemma ReadEntryAtLogOffset_past:
  assumes "position idx = word_of_nat (12 * k)" "12 * k + 12 < 2 ^ 63"
  shows "ReadEntryAtLogOffset idx e (word_of_nat k) = Inl (Err EOF)"
proof -
  have "sint (word_of_nat (12 * k) + word_of_nat entryWidth :: int64) = int (12 * k) + 12"
    using assms by (intro sint_off_plus_width) simp
  moreover have "sint (position idx) = int (12 * k)"
    using assms sint_word_of_nat_64 [of "12 * k"] by simp
  ultimately show ?thesis
    by (simp add: ReadEntryAtLogOffset_def ReadEntryAtFileOffset_EOF_iff slot_offset_word)
qed

subsection \<open>Writes\<close>

text \<open>A write at a position inside the mapping replaces the bytes from there on, as
  far as the mapping reaches.\<close>

lemma WriteAt_inside:
  assumes "position idx = word_of_nat o'" "o' \<le> length (mmap idx)" "length (mmap idx) < 2 ^ 63"
  shows "WriteAt idx p (position idx) =
     Inr (min (length (mmap idx) - o') (length p),
          idx\<lparr>mmap := take o' (mmap idx) @ take (length (mmap idx) - o') p @ drop (o' + length p) (mmap idx)\<rparr>)"
proof -
  have "sint (position idx) = int o'"
    using assms by (simp add: sint_word_of_nat_64)
  then show ?thesis using assms
    by (simp add: WriteAt_def slice_from_def slice_def copy_def Let_def min_def add.commute)
qed

lemma WriteAt_general:
  assumes "0 \<le> sint (position idx)" "sint (position idx) \<le> int (length (mmap idx))"
  shows "WriteAt idx p (position idx) =
     Inr (min (length (mmap idx) - nat (sint (position idx))) (length p),
          idx\<lparr>mmap := take (nat (sint (position idx))) (mmap idx)
                  @ take (length (mmap idx) - nat (sint (position idx))) p
                  @ drop (nat (sint (position idx)) + length p) (mmap idx)\<rparr>)"
  using assms
  by (simp add: WriteAt_def slice_from_def slice_def copy_def Let_def min_def add.commute nat_le_iff)

lemma WriteEntries_inside:
  assumes "position idx = word_of_nat o'" "o' \<le> length (mmap idx)" "length (mmap idx) < 2 ^ 63"
  shows "WriteEntries idx es =
     (Inr (),
      idx\<lparr>mmap := take o' (mmap idx) @ take (length (mmap idx) - o') (concat (map (encode_entry (baseOffset idx)) es))
                    @ drop (o' + 12 * length es) (mmap idx),
          position := word_of_nat (o' + 12 * length es)\<rparr>)"
proof -
  have "(\<lambda>entry. binary_Write Encoding (newRelEntry entry (baseOffset idx))) = encode_entry (baseOffset idx)"
    by (simp add: encode_entry_def fun_eq_iff)
  then show ?thesis
    using assms WriteAt_inside [OF assms, of "concat (map (encode_entry (baseOffset idx)) es)"]
    by (simp add: WriteEntries_def Let_def length_concat_encode entryWidth_eq)
qed

lemma WriteEntries_fits:
  assumes "position idx = word_of_nat o'" "o' + 12 * length es \<le> length (mmap idx)" "length (mmap idx) < 2 ^ 63"
  shows "WriteEntries idx es =
     (Inr (),
      idx\<lparr>mmap := take o' (mmap idx) @ concat (map (encode_entry (baseOffset idx)) es)
                    @ drop (o' + 12 * length es) (mmap idx),
          position := word_of_nat (o' + 12 * length es)\<rparr>)"
  using assms WriteEntries_inside [of idx o' es] by (simp add: length_concat_encode)

lemma append_each_fits:
  assumes "position idx = word_of_nat o'" "o' + 12 * length es \<le> length (mmap idx)" "length (mmap idx) < 2 ^ 63"
  shows "append_each idx es =
     Inr (idx\<lparr>mmap := take o' (mmap idx) @ concat (map (encode_entry (baseOffset idx)) es)
                    @ drop (o' + 12 * length es) (mmap idx),
          position := word_of_nat (o' + 12 * length es)\<rparr>)"
  using assms
proof (induction es arbitrary: idx o')
  case Nil
  then show ?case by simp
next
  case (Cons e es)
  let ?idx' = "idx\<lparr>mmap := take o' (mmap idx) @ concat (map (encode_entry (baseOffset idx)) [e])
                    @ drop (o' + 12 * length [e]) (mmap idx),
          position := word_of_nat (o' + 12 * length [e])\<rparr>"
  have w: "WriteEntries idx [e] = (Inr (), ?idx')"
    using Cons.prems by (intro WriteEntries_fits) auto
  have "append_each ?idx' es =
     Inr (?idx'\<lparr>mmap := take (o' + 12) (mmap ?idx') @ concat (map (encode_entry (baseOffset ?idx')) es)
                    @ drop (o' + 12 + 12 * length es) (mmap ?idx'),
          position := word_of_nat (o' + 12 + 12 * length es)\<rparr>)"
    using Cons.prems by (intro Cons.IH) (auto simp: length_encode_entry)
  moreover have "take (o' + 12) (mmap ?idx') = take o' (mmap idx) @ encode_entry (baseOffset idx) e"
    using Cons.prems by (simp add: length_encode_entry min_def)
  moreover have "drop (o' + 12 + 12 * length es) (mmap ?idx') = drop (o' + 12 * length (e # es)) (mmap idx)"
    using Cons.prems by (simp add: length_encode_entry min_def ac_simps)
  ultimately show ?case
    using w by (simp add: add.assoc)
qed

lemma append_each_from_empty:
  assumes "position idx = 0" "12 * length es \<le> length (mmap idx)" "length (mmap idx) < 2 ^ 63"
  shows "append_each idx es =
     Inr (idx\<lparr>mmap := concat (map (encode_entry (baseOffset idx)) es) @ drop (12 * length es) (mmap idx),
              position := word_of_nat (12 * length es)\<rparr>)"
  using append_each_fits [of idx 0 es] assms by simp

subsection \<open>The search of InitializePosition\<close>

text \<open>Two facts about the loop of \<open>sort.Search\<close>. Over a range
  \<open>0 \<le> a \<le> b < 2^63\<close> on which the predicate is false below \<open>k\<close> and true from \<open>k\<close> on,
  and does not panic, the loop returns, with \<open>k\<close>. And whenever the loop returns a slot
  from \<open>0 \<le> i \<le> j\<close>, the slot lies in that range and is \<open>i\<close> itself or the successor of
  a slot where the predicate was false.\<close>

lemma Search_loop_empty_range:
  "\<not> sint i < sint j \<Longrightarrow> Search_loop f i j s = Some (Inr (i, s))"
  by (subst Search_loop.simps) simp

lemma Search_loop_step:
  assumes "sint i < sint j" and "f (drop_bit 1 (i + j)) s = Inr (b, s')"
  shows "Search_loop f i j s =
     (if b then Search_loop f i (drop_bit 1 (i + j)) s' else Search_loop f (drop_bit 1 (i + j) + 1) j s')"
  using assms by (subst Search_loop.simps) simp

lemma Search_loop_finds:
  assumes "b < 2 ^ 63" "a \<le> k" "k \<le> b"
    and "\<And>h s. a \<le> h \<Longrightarrow> h < b \<Longrightarrow> \<exists>s'. f (word_of_nat h) s = Inr (k \<le> h, s')"
  shows "\<exists>s'. Search_loop f (word_of_nat a) (word_of_nat b) s = Some (Inr (word_of_nat k, s'))"
  using assms
proof (induction "b - a" arbitrary: a b s rule: less_induct)
  case less
  let ?h = "(a + b) div 2"
  have sa: "sint (word_of_nat a :: 64 word) = int a" and sb: "sint (word_of_nat b :: 64 word) = int b"
    using less.prems by (simp_all add: sint_word_of_nat_64)
  have h: "drop_bit 1 (word_of_nat a + word_of_nat b :: 64 word) = word_of_nat ?h"
    using less.prems by (intro drop_bit_1_of_nat_add) simp
  have unfold: "Search_loop f (word_of_nat a) (word_of_nat b) s =
     (if a < b then
        (case f (word_of_nat ?h) s of
           Inl e \<Rightarrow> Some (Inl e)
         | Inr r \<Rightarrow>
             if \<not> fst r then Search_loop f (word_of_nat ?h + 1) (word_of_nat b) (snd r)
             else Search_loop f (word_of_nat a) (word_of_nat ?h) (snd r))
      else Some (Inr (word_of_nat a, s)))"
    by (subst Search_loop.simps) (simp only: sa sb h of_nat_less_iff)
  show ?case
  proof (cases "a < b")
    case False
    with less.prems have "a = k" by simp
    with False unfold show ?thesis by simp
  next
    case True
    have hr: "a \<le> ?h" "?h < b" using True by simp_all
    obtain s' where fh: "f (word_of_nat ?h) s = Inr (k \<le> ?h, s')"
      using less.prems(4) [OF hr] by blast
    show ?thesis
    proof (cases "k \<le> ?h")
      case True
      have "\<exists>s''. Search_loop f (word_of_nat a) (word_of_nat ?h) s' = Some (Inr (word_of_nat k, s''))"
        using less.prems hr True by (intro less.hyps) auto
      then show ?thesis
        using \<open>a < b\<close> True fh unfold by simp
    next
      case False
      have "\<exists>s''. Search_loop f (word_of_nat (?h + 1)) (word_of_nat b) s' = Some (Inr (word_of_nat k, s''))"
        using less.prems hr False by (intro less.hyps) auto
      then show ?thesis
        using \<open>a < b\<close> False fh unfold by (simp add: add.commute)
    qed
  qed
qed

lemma Search_loop_result:
  assumes "Search_loop f i j s = Some y"
  shows "0 \<le> sint i \<longrightarrow> sint i \<le> sint j \<longrightarrow> (\<forall>r s'. y = Inr (r, s') \<longrightarrow>
           sint i \<le> sint r \<and> sint r \<le> sint j \<and> (r = i \<or> (\<exists>s0 s1. f (r - 1) s0 = Inr (False, s1))))"
  using assms
proof (induction rule: Search_loop.raw_induct [rotated 1, consumes 1])
  case (1 Search_loop f i j s y)
  show ?case
  proof (intro impI allI)
    fix r s'
    assume i0: "0 \<le> sint i" and ij: "sint i \<le> sint j" and y: "y = Inr (r, s')"
    show "sint i \<le> sint r \<and> sint r \<le> sint j \<and> (r = i \<or> (\<exists>s0 s1. f (r - 1) s0 = Inr (False, s1)))"
    proof (cases "sint i < sint j")
      case False
      with 1(2) y ij show ?thesis by simp
    next
      case True
      let ?h = "drop_bit 1 (i + j)"
      have sh: "sint ?h = (sint i + sint j) div 2"
        using i0 True by (rule sint_midpoint)
      then have hr: "sint i \<le> sint ?h" "sint ?h < sint j" using True by simp_all
      from 1(2) True y obtain b s1 where fh: "f ?h s = Inr (b, s1)"
        and rec: "(if \<not> b then Search_loop f (?h + 1) j s1 else Search_loop f i ?h s1) = Some (Inr (r, s'))"
        by (cases "f ?h s") (auto split: if_splits)
      show ?thesis
      proof (cases b)
        case True
        with rec have "Search_loop f i ?h s1 = Some (Inr (r, s'))" by simp
        from 1(1) [OF this] i0 hr show ?thesis by auto
      next
        case False
        with rec have r: "Search_loop f (?h + 1) j s1 = Some (Inr (r, s'))" by simp
        have s1: "sint (?h + 1) = sint ?h + 1" using hr(2) by (rule sint_succ_below)
        from 1(1) [OF r] s1 i0 hr
        have "sint (?h + 1) \<le> sint r \<and> sint r \<le> sint j \<and> (r = ?h + 1 \<or> (\<exists>s0 s1. f (r - 1) s0 = Inr (False, s1)))"
          by simp
        moreover have "r = ?h + 1 \<Longrightarrow> f (r - 1) s = Inr (False, s1)"
          using fh False by simp
        ultimately show ?thesis using s1 hr by auto
      qed
    qed
  qed
qed

lemma is_empty_slot_Inr:
  assumes "is_empty_slot idx i s0 = Inr (b, s1)"
  shows "ReadEntryAtFileOffset idx s0 (i * word_of_nat entryWidth) = Inr s1"
    and "b \<longleftrightarrow> Position s1 = 0 \<and> Size s1 = 0"
  using assms by (auto simp: is_empty_slot_def split: sum.splits fault.splits)

lemma is_empty_slot_encoded:
  assumes "12 * (h + 1) \<le> length (mmap idx)" and "12 * (int h + 1) \<le> sint (position idx)"
    and "slot_bytes (mmap idx) h = encode_entry (baseOffset idx) x"
    and "representable (baseOffset idx) x"
  shows "is_empty_slot idx (word_of_nat h) s = Inr (Position x = 0 \<and> Size x = 0, x)"
  using ReadEntryAtLogOffset_encoded [OF assms, of s]
  by (simp add: is_empty_slot_def ReadEntryAtLogOffset_def)

lemma is_empty_slot_zero:
  assumes "12 * (h + 1) \<le> length (mmap idx)" and "12 * (int h + 1) \<le> sint (position idx)"
    and "slot_bytes (mmap idx) h = replicate 12 0"
  shows "is_empty_slot idx (word_of_nat h) s
     = Inr (True, s\<lparr>Offset := baseOffset idx, Position := 0, Size := 0\<rparr>)"
proof -
  have "binary_Read Encoding (slot_bytes (mmap idx) h) = Some \<lparr>rel_Offset = 0, rel_Position = 0, rel_Size = 0\<rparr>"
    using assms(3) by (simp add: binary_Read_zero)
  from ReadEntryAtLogOffset_slot [OF assms(1,2) this, of s] show ?thesis
    by (simp add: is_empty_slot_def ReadEntryAtLogOffset_def fill_def)
qed

lemma first_empty_slot_positive:
  assumes "first_empty_slot idx = Some (Inr (i, s))" and "0 < sint i"
  shows "sint i \<le> sint (bytes idx) sdiv 12" and "12 * sint i < 2 ^ 63"
    and "\<exists>s0 s1. ReadEntryAtFileOffset idx s0 ((i - 1) * word_of_nat entryWidth) = Inr s1
           \<and> \<not> (Position s1 = 0 \<and> Size s1 = 0)"
proof -
  let ?n = "go_div (bytes idx) (word_of_nat entryWidth)"
  have sl: "Search_loop (is_empty_slot idx) 0 ?n zeroEntry = Some (Inr (i, s))"
    using assms(1) by (simp add: first_empty_slot_def Search_def)
  have n0: "0 \<le> sint ?n"
  proof (rule ccontr)
    assume "\<not> 0 \<le> sint ?n"
    then have "Search_loop (is_empty_slot idx) 0 ?n zeroEntry = Some (Inr (0, zeroEntry))"
      by (intro Search_loop_empty_range) simp
    with sl assms(2) show False by simp
  qed
  from Search_loop_result [OF sl] n0
  have r: "sint i \<le> sint ?n" "i = 0 \<or> (\<exists>s0 s1. is_empty_slot idx (i - 1) s0 = Inr (False, s1))"
    by simp_all
  from r(1) show le: "sint i \<le> sint (bytes idx) sdiv 12"
    by (simp add: sint_go_div_12)
  have b0: "0 \<le> sint (bytes idx)"
  proof (rule ccontr)
    assume "\<not> 0 \<le> sint (bytes idx)"
    then have "sint (bytes idx) sdiv 12 \<le> 0" by (intro sdiv_12_bounds(3)) simp
    with le assms(2) show False by simp
  qed
  have "12 * (sint (bytes idx) sdiv 12) \<le> sint (bytes idx)"
    using b0 by (rule sdiv_12_bounds(2))
  moreover have "sint (bytes idx) < 2 ^ 63"
    using sint_lt [of "bytes idx"] by simp
  ultimately show "12 * sint i < 2 ^ 63"
    using le by linarith
  from r(2) assms(2) obtain s0 s1 where "is_empty_slot idx (i - 1) s0 = Inr (False, s1)"
    by auto
  from is_empty_slot_Inr [OF this]
  show "\<exists>s0 s1. ReadEntryAtFileOffset idx s0 ((i - 1) * word_of_nat entryWidth) = Inr s1
           \<and> \<not> (Position s1 = 0 \<and> Size s1 = 0)"
    by blast
qed

subsection \<open>The scanner\<close>

text \<open>One call of Scan, and the calls that follow from slot \<open>a\<close> on an index that
  holds the entries \<open>es\<close>.\<close>

lemma Scan_entry:
  assumes "ReadEntryAtLogOffset idx (entry s) (offset s) = Inr x"
    and "Offset x \<noteq> 0 \<or> offset s = 0"
  shows "Scan idx s = (Inr x, s\<lparr>entry := x, offset := offset s + 1\<rparr>)"
  using assms by (auto simp: Scan_def)

lemma Scan_EOF:
  assumes "ReadEntryAtLogOffset idx (entry s) (offset s) = Inl (Err EOF)"
  shows "Scan idx s = (Inl (Err EOF), s)"
  using assms by (simp add: Scan_def)

lemma scan_n_from:
  assumes "position idx = word_of_nat (12 * length es)" "12 * length es \<le> length (mmap idx)"
    and "12 * length es + 12 < 2 ^ 63"
    and "\<And>j. j < length es \<Longrightarrow> slot_bytes (mmap idx) j = encode_entry (baseOffset idx) (es ! j)"
    and "\<And>j. j < length es \<Longrightarrow> representable (baseOffset idx) (es ! j)"
    and "\<And>j. 0 < j \<Longrightarrow> j < length es \<Longrightarrow> Offset (es ! j) \<noteq> 0"
    and "offset s = word_of_nat a" "a \<le> length es"
  shows "scan_n idx s (Suc (length es - a)) = map Inr (drop a es) @ [Inl (Err EOF)]"
  using assms(7,8)
proof (induction "length es - a" arbitrary: a s)
  case 0
  then have a: "a = length es" by simp
  have "ReadEntryAtLogOffset idx (entry s) (offset s) = Inl (Err EOF)"
    using assms(1,3) 0 a by (simp only: ReadEntryAtLogOffset_past)
  then show ?case using a by (simp add: Scan_EOF)
next
  case (Suc d)
  then have a: "a < length es" by simp
  have sa: "sint (position idx) = int (12 * length es)"
    using assms(1,3) sint_word_of_nat_64 [of "12 * length es"] by simp
  have "ReadEntryAtLogOffset idx (entry s) (word_of_nat a) = Inr (es ! a)"
    using a assms(2) sa assms(4) [OF a] assms(5) [OF a]
    by (intro ReadEntryAtLogOffset_encoded) simp_all
  moreover have "Offset (es ! a) \<noteq> 0 \<or> offset s = 0"
    using assms(6) [of a] a Suc.prems by (cases "a = 0") simp_all
  ultimately have sc: "Scan idx s = (Inr (es ! a), s\<lparr>entry := es ! a, offset := offset s + 1\<rparr>)"
    using Suc.prems by (intro Scan_entry) simp_all
  let ?s' = "s\<lparr>entry := es ! a, offset := offset s + 1\<rparr>"
  have "scan_n idx ?s' (Suc (length es - Suc a)) = map Inr (drop (Suc a) es) @ [Inl (Err EOF)]"
    using Suc.hyps(2) Suc.prems a by (intro Suc.hyps(1)) simp_all
  moreover have "length es - a = Suc (length es - Suc a)" using a by simp
  moreover have "drop a es = es ! a # drop (Suc a) es" using a by (simp add: Cons_nth_drop_Suc)
  ultimately show ?case using sc by simp
qed

subsection \<open>The examples\<close>

text \<open>The searches of InitializePosition on the example indexes, step by
  step.\<close>

lemma representable_examples:
  "representable 100 entry_a" "representable 100 entry_b" "representable 100 entry_c"
  by (simp_all add: representable_def entry_a_def entry_b_def entry_c_def)

lemma go_div_36: "go_div 36 (word_of_nat entryWidth) = 3"
  by (simp add: go_div_def entryWidth_eq signed_divide_int_def)

lemma first_empty_slot_reopened:
  "first_empty_slot idx_reopened = Some (Inr (2, \<lparr>Offset = 100, Position = 0, Size = 0\<rparr>))"
proof -
  let ?F = "is_empty_slot idx_reopened"
  have a1: "?F 1 zeroEntry = Inr (False, entry_b)"
    using is_empty_slot_encoded [of 1 idx_reopened entry_b zeroEntry]
    by (simp add: idx_reopened_def idx_two_def idx_example_def length_encode_entry slot_bytes_def
          entryWidth_eq representable_examples) (simp add: entry_b_def)
  have a2: "?F 2 entry_b = Inr (True, \<lparr>Offset = 100, Position = 0, Size = 0\<rparr>)"
    using is_empty_slot_zero [of 2 idx_reopened entry_b]
    by (simp add: idx_reopened_def idx_two_def idx_example_def length_encode_entry slot_bytes_def
          entryWidth_eq entry_b_def)
  have "Search_loop ?F 0 3 zeroEntry = Search_loop ?F 2 3 entry_b"
    using Search_loop_step [of 0 3 ?F zeroEntry False entry_b] a1 by simp
  also have "\<dots> = Search_loop ?F 2 2 \<lparr>Offset = 100, Position = 0, Size = 0\<rparr>"
    using Search_loop_step [of 2 3 ?F entry_b True "\<lparr>Offset = 100, Position = 0, Size = 0\<rparr>"] a2 by simp
  also have "\<dots> = Some (Inr (2, \<lparr>Offset = 100, Position = 0, Size = 0\<rparr>))"
    by (simp add: Search_loop_empty_range)
  finally show ?thesis
    by (simp add: first_empty_slot_def Search_def idx_reopened_def idx_two_def idx_example_def go_div_36)
qed

lemma first_empty_slot_corrupt:
  "first_empty_slot idx_corrupt = Some (Inr (1, \<lparr>Offset = 99, Position = 7, Size = 7\<rparr>))"
proof -
  let ?F = "is_empty_slot idx_corrupt"
  have rep: "representable 100 \<lparr>Offset = 99, Position = 7, Size = 7\<rparr>"
    by (simp add: representable_def)
  have a1: "?F 1 zeroEntry = Inr (True, \<lparr>Offset = 100, Position = 0, Size = 0\<rparr>)"
    using is_empty_slot_zero [of 1 idx_corrupt zeroEntry]
    by (simp add: idx_corrupt_def idx_example_def length_encode_entry slot_bytes_def
          entryWidth_eq zeroEntry_def)
  have a0: "?F 0 \<lparr>Offset = 100, Position = 0, Size = 0\<rparr> = Inr (False, \<lparr>Offset = 99, Position = 7, Size = 7\<rparr>)"
    using is_empty_slot_encoded [of 0 idx_corrupt "\<lparr>Offset = 99, Position = 7, Size = 7\<rparr>"
        "\<lparr>Offset = 100, Position = 0, Size = 0\<rparr>"] rep
    by (simp add: idx_corrupt_def idx_example_def length_encode_entry slot_bytes_def entryWidth_eq)
  have "Search_loop ?F 0 3 zeroEntry = Search_loop ?F 0 1 \<lparr>Offset = 100, Position = 0, Size = 0\<rparr>"
    using Search_loop_step [of 0 3 ?F zeroEntry True "\<lparr>Offset = 100, Position = 0, Size = 0\<rparr>"] a1 by simp
  also have "\<dots> = Search_loop ?F 1 1 \<lparr>Offset = 99, Position = 7, Size = 7\<rparr>"
    using Search_loop_step [of 0 1 ?F "\<lparr>Offset = 100, Position = 0, Size = 0\<rparr>" False
        "\<lparr>Offset = 99, Position = 7, Size = 7\<rparr>"] a0 by simp
  also have "\<dots> = Some (Inr (1, \<lparr>Offset = 99, Position = 7, Size = 7\<rparr>))"
    by (simp add: Search_loop_empty_range)
  finally show ?thesis
    by (simp add: first_empty_slot_def Search_def idx_corrupt_def idx_example_def go_div_36)
qed

section \<open>The claims\<close>

subsection \<open>C1\<close>

text \<open>Claim C1 (recovery of the write position), as amended: the entries are to fit the
  mapping and the 32-bit fields, with offsets not below the base offset. Take an index
  whose mapping is all zeros and has \<open>bytes / entryWidth\<close> slots, append \<open>k\<close> entries one by one from write
  position 0 (representable entries with offsets not below the base offset, none with
  position and size both zero, within the mapping), and reopen it at full capacity:
  NewIndex sets the write position to the size of the file, the length of the mapping.
  Then InitializePosition returns, sets the write position to \<open>k * entryWidth\<close>, and
  returns no entry when \<open>k = 0\<close> and the last appended entry otherwise. Among the
  \<open>bytes / entryWidth\<close> slots, the decoded record has position 0 and size 0 exactly from
  slot \<open>k\<close> on: \<open>k\<close> is the smallest such slot, where there is one.\<close>

theorem InitializePosition_recovers:
  assumes "0 \<le> sint (bytes idx0)"
    and "mmap idx0 = replicate (entryWidth * nat (sint (bytes idx0) div int entryWidth)) 0"
    and "position idx0 = 0"
    and "entryWidth * length es \<le> length (mmap idx0)"
    and "list_all (representable (baseOffset idx0)) es"
    and "list_all (\<lambda>e. sint (baseOffset idx0) \<le> sint (Offset e)) es"
    and "list_all (\<lambda>e. \<not> (Position e = 0 \<and> Size e = 0)) es"
  shows "\<exists>idx1. append_each idx0 es = Inr idx1
     \<and> InitializePosition (idx1\<lparr>position := word_of_nat (length (mmap idx1))\<rparr>)
         = Some (Inr (if es = [] then None else Some (last es)),
                 idx1\<lparr>position := word_of_nat (entryWidth * length es)\<rparr>)
     \<and> (\<forall>h. h < nat (sint (bytes idx0) div int entryWidth) \<longrightarrow>
          (\<exists>e. ReadEntryAtLogOffset (idx1\<lparr>position := word_of_nat (length (mmap idx1))\<rparr>)
                  zeroEntry (word_of_nat h) = Inr e
             \<and> (Position e = 0 \<and> Size e = 0 \<longleftrightarrow> length es \<le> h)))"
proof -
  define N where "N = nat (sint (bytes idx0) div 12)"
  define k where "k = length es"
  define base where "base = baseOffset idx0"
  define idx1 where "idx1 = idx0\<lparr>mmap := concat (map (encode_entry (baseOffset idx0)) es) @ drop (12 * length es) (mmap idx0),
              position := word_of_nat (12 * length es)\<rparr>"
  define idx2 where "idx2 = idx1\<lparr>position := word_of_nat (length (mmap idx1))\<rparr>"
  have zeros: "mmap idx0 = replicate (12 * N) 0"
    using assms(2) by (simp add: entryWidth_eq N_def)
  then have len0: "length (mmap idx0) = 12 * N" by simp
  have N: "12 * int N \<le> sint (bytes idx0)"
    using sdiv_12_bounds(1,2) [OF assms(1)] assms(1) by (simp add: sdiv_12_nonneg N_def)
  have "sint (bytes idx0) < 2 ^ 63" using sint_lt [of "bytes idx0"] by simp
  with N have "int (12 * N) < 2 ^ 63" by simp
  then have N63: "12 * N < 2 ^ 63" by (simp only: of_nat_less_numeral_power_cancel_iff)
  have fit: "12 * k \<le> length (mmap idx0)" using assms(4) by (simp add: entryWidth_eq k_def)
  then have kN: "k \<le> N" using len0 by simp
  have k63: "12 * k < 2 ^ 63" using kN N63 by simp
  have app: "append_each idx0 es = Inr idx1"
    unfolding idx1_def using assms(3) fit len0 N63 by (intro append_each_from_empty) (simp_all add: k_def)
  have m1: "mmap idx1 = concat (map (encode_entry base) es) @ replicate (12 * N - 12 * k) 0"
    by (simp add: idx1_def zeros k_def base_def)
  have len1: "length (mmap idx1) = 12 * N"
    using kN by (simp add: m1 length_concat_encode k_def)
  have p1: "position idx1 = word_of_nat (12 * k)" and b1: "baseOffset idx1 = base"
    by (simp_all add: idx1_def k_def base_def)
  have sp1: "sint (position idx1) = int (12 * k)"
    unfolding p1 using k63 by (rule sint_word_of_nat_64)
  have m2: "mmap idx2 = mmap idx1" and b2: "baseOffset idx2 = base" and by2: "bytes idx2 = bytes idx0"
    by (simp_all add: idx2_def idx1_def base_def)
  have p2: "position idx2 = word_of_nat (12 * N)"
    by (simp add: idx2_def len1)
  have sp2: "sint (position idx2) = int (12 * N)"
    unfolding p2 using N63 by (rule sint_word_of_nat_64)
  have n: "go_div (bytes idx2) (word_of_nat entryWidth) = word_of_nat N"
    unfolding by2 N_def using assms(1) by (rule go_div_slots)
  have slot_lo: "slot_bytes (mmap idx1) h = encode_entry base (es ! h)" if "h < k" for h
    using that unfolding m1 k_def by (rule slot_bytes_concat)
  have slot_hi: "slot_bytes (mmap idx1) h = replicate 12 0" if "k \<le> h" "h < N" for h
  proof -
    from that obtain d where h: "h = k + d" using le_Suc_ex by blast
    have "slot_bytes (mmap idx1) (k + d) = slot_bytes (replicate (12 * N - 12 * k) 0) d"
      unfolding m1 by (rule slot_bytes_append_right) (simp add: length_concat_encode k_def)
    also have "\<dots> = replicate 12 0"
      using that h by (intro slot_bytes_replicate) simp
    finally show ?thesis by (simp only: h)
  qed
  have rep: "representable base (es ! h)" if "h < k" for h
    using that assms(5) by (simp add: list_all_length k_def base_def)
  have probe: "\<exists>s'. is_empty_slot idx2 (word_of_nat h) s = Inr (k \<le> h, s')" if "h < N" for h s
  proof (cases "h < k")
    case True
    have "is_empty_slot idx2 (word_of_nat h) s
        = Inr (Position (es ! h) = 0 \<and> Size (es ! h) = 0, es ! h)"
    proof (rule is_empty_slot_encoded)
      show "12 * (h + 1) \<le> length (mmap idx2)" using that by (simp add: m2 len1)
      show "12 * (int h + 1) \<le> sint (position idx2)" using that by (simp add: sp2)
      show "slot_bytes (mmap idx2) h = encode_entry (baseOffset idx2) (es ! h)"
        using slot_lo [OF True] by (simp only: m2 b2)
      show "representable (baseOffset idx2) (es ! h)"
        using rep [OF True] by (simp only: b2)
    qed
    moreover have "\<not> (Position (es ! h) = 0 \<and> Size (es ! h) = 0)"
      using True assms(7) by (simp add: list_all_length k_def)
    ultimately show ?thesis using True by simp
  next
    case False
    have "is_empty_slot idx2 (word_of_nat h) s
        = Inr (True, s\<lparr>Offset := baseOffset idx2, Position := 0, Size := 0\<rparr>)"
    proof (rule is_empty_slot_zero)
      show "12 * (h + 1) \<le> length (mmap idx2)" using that by (simp add: m2 len1)
      show "12 * (int h + 1) \<le> sint (position idx2)" using that by (simp add: sp2)
      show "slot_bytes (mmap idx2) h = replicate 12 0"
        using slot_hi [of h] False that by (simp add: m2)
    qed
    then show ?thesis using False by simp
  qed
  have "\<exists>s'. Search_loop (is_empty_slot idx2) (word_of_nat 0) (word_of_nat N) zeroEntry
          = Some (Inr (word_of_nat k, s'))"
  proof (rule Search_loop_finds)
    show "N < 2 ^ 63" using N63 by simp
    show "0 \<le> k" by simp
    show "k \<le> N" by (rule kN)
    show "\<exists>s'. is_empty_slot idx2 (word_of_nat h) s = Inr (k \<le> h, s')" if "0 \<le> h" "h < N" for h s
      using that(2) by (rule probe)
  qed
  then obtain s' where "Search_loop (is_empty_slot idx2) 0 (word_of_nat N) zeroEntry
          = Some (Inr (word_of_nat k, s'))"
    by auto
  then have fe: "first_empty_slot idx2 = Some (Inr (word_of_nat k, s'))"
    by (simp only: first_empty_slot_def Search_def n)
  have st: "idx2\<lparr>position := word_of_nat k * word_of_nat entryWidth\<rparr> = idx1"
    by (simp add: idx2_def idx1_def k_def entryWidth_eq)
  have res: "position_from_slot idx2 (word_of_nat k) s'
      = (Inr (if es = [] then None else Some (last es)), idx1)"
  proof (cases es rule: rev_cases)
    case Nil
    then have "k = 0" by (simp add: k_def)
    with Nil st show ?thesis by (simp add: position_from_slot_def)
  next
    case (snoc xs x)
    then have kS: "k = Suc (length xs)" by (simp add: k_def)
    have "sint (word_of_nat k :: int64) = int k"
      using k63 by (intro sint_word_of_nat_64) simp
    then have k0: "(word_of_nat k :: int64) \<noteq> 0"
      using kS by auto
    have km: "(word_of_nat k - 1 :: int64) = word_of_nat (length xs)"
      using kS by simp
    have x: "es ! length xs = x" "last es = x" using snoc by simp_all
    have "ReadEntryAtLogOffset idx1 s' (word_of_nat (length xs)) = Inr (es ! length xs)"
    proof (rule ReadEntryAtLogOffset_encoded)
      show "12 * (length xs + 1) \<le> length (mmap idx1)" using kS kN by (simp add: len1)
      show "12 * (int (length xs) + 1) \<le> sint (position idx1)" using kS by (simp add: sp1)
      show "slot_bytes (mmap idx1) (length xs) = encode_entry (baseOffset idx1) (es ! length xs)"
        using slot_lo [of "length xs"] kS by (simp add: b1)
      show "representable (baseOffset idx1) (es ! length xs)"
        using rep [of "length xs"] kS by (simp add: b1)
    qed
    then have rd: "ReadEntryAtFileOffset idx1 s' ((word_of_nat k - 1) * word_of_nat entryWidth) = Inr x"
      by (simp only: km ReadEntryAtLogOffset_def x)
    have off: "\<not> sint (Offset x) < sint (baseOffset idx1)"
      using assms(6) snoc by (simp add: b1 base_def)
    have "sint (position idx1) = 12 * int k"
      using sp1 by simp
    then have md: "go_mod (position idx1) (word_of_nat entryWidth) = 0"
      by (rule go_mod_12)
    have "es \<noteq> []" using snoc by simp
    then show ?thesis
      unfolding position_from_slot_def Let_def st
      using k0 rd off md x by simp
  qed
  have ip: "InitializePosition idx2 = Some (Inr (if es = [] then None else Some (last es)), idx1)"
    using fe res by (simp add: InitializePosition_def)
  have same: "idx1\<lparr>position := word_of_nat (entryWidth * length es)\<rparr> = idx1"
    by (simp add: idx1_def entryWidth_eq)
  have fin: "InitializePosition (idx1\<lparr>position := word_of_nat (length (mmap idx1))\<rparr>)
         = Some (Inr (if es = [] then None else Some (last es)),
                 idx1\<lparr>position := word_of_nat (entryWidth * length es)\<rparr>)"
    using ip unfolding idx2_def same .
  have slots: "\<exists>e. ReadEntryAtLogOffset idx2 zeroEntry (word_of_nat h) = Inr e
             \<and> (Position e = 0 \<and> Size e = 0 \<longleftrightarrow> k \<le> h)" if "h < N" for h
  proof -
    from probe [OF that, of zeroEntry] obtain s' where
      "is_empty_slot idx2 (word_of_nat h) zeroEntry = Inr (k \<le> h, s')" by blast
    from is_empty_slot_Inr [OF this] show ?thesis
      by (auto simp: ReadEntryAtLogOffset_def)
  qed
  have "\<forall>h. h < nat (sint (bytes idx0) div int entryWidth) \<longrightarrow>
          (\<exists>e. ReadEntryAtLogOffset (idx1\<lparr>position := word_of_nat (length (mmap idx1))\<rparr>)
                  zeroEntry (word_of_nat h) = Inr e
             \<and> (Position e = 0 \<and> Size e = 0 \<longleftrightarrow> length es \<le> h))"
    using slots unfolding idx2_def N_def k_def by (simp add: entryWidth_eq)
  with app fin show ?thesis by (intro exI [of _ idx1] conjI)
qed

text \<open>The empty index of three slots, two entries appended, reopened at its 36 bytes:
  InitializePosition sets the write position to 24 and returns the second entry; slot 2
  decodes to position 0 and size 0.\<close>

theorem InitializePosition_recovers_witness:
  "0 \<le> sint (bytes idx_example)
   \<and> mmap idx_example = replicate (entryWidth * nat (sint (bytes idx_example) div int entryWidth)) 0
   \<and> position idx_example = 0
   \<and> entryWidth * length [entry_a, entry_b] \<le> length (mmap idx_example)
   \<and> list_all (representable (baseOffset idx_example)) [entry_a, entry_b]
   \<and> list_all (\<lambda>e. sint (baseOffset idx_example) \<le> sint (Offset e)) [entry_a, entry_b]
   \<and> list_all (\<lambda>e. \<not> (Position e = 0 \<and> Size e = 0)) [entry_a, entry_b]
   \<and> (\<exists>idx1. append_each idx_example [entry_a, entry_b] = Inr idx1
        \<and> InitializePosition (idx1\<lparr>position := word_of_nat (length (mmap idx1))\<rparr>)
            = Some (Inr (Some entry_b), idx1\<lparr>position := 24\<rparr>)
        \<and> (\<exists>e. ReadEntryAtLogOffset (idx1\<lparr>position := word_of_nat (length (mmap idx1))\<rparr>)
                  zeroEntry 2 = Inr e \<and> Position e = 0 \<and> Size e = 0))"
proof -
  have h1: "0 \<le> sint (bytes idx_example)"
    by (simp add: idx_example_def)
  have h2: "mmap idx_example = replicate (entryWidth * nat (sint (bytes idx_example) div int entryWidth)) 0"
    by (simp add: idx_example_def entryWidth_eq)
  have h3: "position idx_example = 0"
    by (simp add: idx_example_def)
  have h4: "entryWidth * length [entry_a, entry_b] \<le> length (mmap idx_example)"
    by (simp add: idx_example_def entryWidth_eq)
  have h5: "list_all (representable (baseOffset idx_example)) [entry_a, entry_b]"
    by (simp add: idx_example_def representable_examples)
  have h6: "list_all (\<lambda>e. sint (baseOffset idx_example) \<le> sint (Offset e)) [entry_a, entry_b]"
    by (simp add: idx_example_def entry_a_def entry_b_def)
  have h7: "list_all (\<lambda>e. \<not> (Position e = 0 \<and> Size e = 0)) [entry_a, entry_b]"
    by (simp add: entry_a_def entry_b_def)
  from InitializePosition_recovers [OF h1 h2 h3 h4 h5 h6 h7] obtain idx1 where
    a: "append_each idx_example [entry_a, entry_b] = Inr idx1"
    and b: "InitializePosition (idx1\<lparr>position := word_of_nat (length (mmap idx1))\<rparr>)
         = Some (Inr (if [entry_a, entry_b] = [] then None else Some (last [entry_a, entry_b])),
                 idx1\<lparr>position := word_of_nat (entryWidth * length [entry_a, entry_b])\<rparr>)"
    and c: "\<forall>h. h < nat (sint (bytes idx_example) div int entryWidth) \<longrightarrow>
          (\<exists>e. ReadEntryAtLogOffset (idx1\<lparr>position := word_of_nat (length (mmap idx1))\<rparr>)
                  zeroEntry (word_of_nat h) = Inr e
             \<and> (Position e = 0 \<and> Size e = 0 \<longleftrightarrow> length [entry_a, entry_b] \<le> h))"
    by blast
  have "2 < nat (sint (bytes idx_example) div int entryWidth)"
    by (simp add: idx_example_def entryWidth_eq)
  with c have "\<exists>e. ReadEntryAtLogOffset (idx1\<lparr>position := word_of_nat (length (mmap idx1))\<rparr>)
                  zeroEntry (word_of_nat 2) = Inr e
             \<and> (Position e = 0 \<and> Size e = 0 \<longleftrightarrow> length [entry_a, entry_b] \<le> 2)"
    by blast
  then have d: "\<exists>e. ReadEntryAtLogOffset (idx1\<lparr>position := word_of_nat (length (mmap idx1))\<rparr>)
                  zeroEntry 2 = Inr e \<and> Position e = 0 \<and> Size e = 0"
    by simp
  from b have b': "InitializePosition (idx1\<lparr>position := word_of_nat (length (mmap idx1))\<rparr>)
         = Some (Inr (Some entry_b), idx1\<lparr>position := 24\<rparr>)"
    by (simp add: entryWidth_eq)
  from a b' d have "\<exists>idx1. append_each idx_example [entry_a, entry_b] = Inr idx1
        \<and> InitializePosition (idx1\<lparr>position := word_of_nat (length (mmap idx1))\<rparr>)
            = Some (Inr (Some entry_b), idx1\<lparr>position := 24\<rparr>)
        \<and> (\<exists>e. ReadEntryAtLogOffset (idx1\<lparr>position := word_of_nat (length (mmap idx1))\<rparr>)
                  zeroEntry 2 = Inr e \<and> Position e = 0 \<and> Size e = 0)"
    by blast
  with h1 h2 h3 h4 h5 h6 h7 show ?thesis by (intro conjI)
qed

text \<open>The claim as stated fails in three ways. After two single-entry appends into the
  index of one slot and the reopening at its 12 bytes, InitializePosition sets the write
  position to 12, not 24, and returns the first entry, not the second. After
  \<open>entry_wide\<close> was appended and the index reopened, the entry returned has position 5, not
  the position \<open>2^32 + 5\<close> of the entry appended. And after \<open>entry_low\<close>, whose offset 99 is
  below the base offset 100, was appended and the index reopened, the call fails with
  ErrIndexCorrupt and returns no entry.\<close>

theorem InitializePosition_recovers_counterexample:
  "append_each idx_one_slot [entry_a, entry_b] = Inr idx_overfilled
   \<and> InitializePosition (idx_overfilled\<lparr>position := word_of_nat (length (mmap idx_overfilled))\<rparr>)
       = Some (Inr (Some entry_a), idx_overfilled\<lparr>position := 12\<rparr>)
   \<and> append_each idx_example [entry_wide] = Inr idx_wide
   \<and> InitializePosition (idx_wide\<lparr>position := word_of_nat (length (mmap idx_wide))\<rparr>)
       = Some (Inr (Some \<lparr>Offset = 102, Position = 5, Size = 7\<rparr>), idx_wide)
   \<and> append_each idx_example [entry_low] = Inr (idx_corrupt\<lparr>position := 12\<rparr>)
   \<and> InitializePosition (idx_corrupt\<lparr>position := word_of_nat (length (mmap idx_corrupt))\<rparr>)
       = Some (Inl (Err ErrIndexCorrupt), idx_corrupt\<lparr>position := 12\<rparr>)"
  by code_simp

subsection \<open>C2\<close>

text \<open>Claim C2 (round trip of the codec). For every entry with \<open>Offset \<ge> baseOffset\<close>
  whose relative offset and position fit the signed 32-bit fields of the record (the size
  is an \<open>int32\<close> already), \<open>fill\<close> of \<open>newRelEntry\<close> with the same base offset gives the
  entry back, whatever the entry filled held before: offset, position and size are those
  of the original.\<close>

theorem relEntry_round_trip:
  assumes "sint base \<le> sint (Offset e)"
    and "sint (Offset e) - sint base < 2 ^ 31"
    and "- (2 ^ 31) \<le> sint (Position e)" and "sint (Position e) < 2 ^ 31"
  shows "fill (newRelEntry e base) e' base = e"
  using assms by (intro fill_newRelEntry) (simp add: representable_def)

text \<open>The round trip on the second entry of the spec's scenario, base offset 100.\<close>

theorem relEntry_round_trip_witness:
  "sint (100 :: int64) \<le> sint (Offset entry_b) \<and> sint (Offset entry_b) - sint (100 :: int64) < 2 ^ 31
   \<and> - (2 ^ 31) \<le> sint (Position entry_b) \<and> sint (Position entry_b) < 2 ^ 31
   \<and> fill (newRelEntry entry_b 100) zeroEntry 100 = entry_b"
  using relEntry_round_trip [of 100 entry_b zeroEntry] by (simp add: entry_b_def)

subsection \<open>C3\<close>

text \<open>Claim C3 (the boundary of reads), as amended. For every byte offset \<open>f\<close> with
  \<open>f + entryWidth\<close> below \<open>2^63\<close>, ReadEntryAtFileOffset fails with \<open>io.EOF\<close> if and only if
  \<open>f + entryWidth\<close> exceeds the write position. Otherwise, when \<open>0 \<le> f\<close> and
  \<open>f + entryWidth\<close> is within the length of the mapping, it succeeds and returns the entry
  decoded from the \<open>entryWidth\<close> bytes at \<open>f\<close>. In particular, after \<open>k \<ge> 1\<close> single-entry
  appends of representable entries that start from write position 0 and fit the mapping,
  reading slot \<open>k\<close> fails with \<open>io.EOF\<close> and reading slot \<open>k - 1\<close> returns the last appended
  entry.\<close>

theorem ReadEntryAtFileOffset_boundary:
  assumes "sint f + int entryWidth < 2 ^ 63"
  shows "(ReadEntryAtFileOffset idx e f = Inl (Err EOF) \<longleftrightarrow> sint (position idx) < sint f + int entryWidth)
     \<and> (sint f + int entryWidth \<le> sint (position idx) \<and> 0 \<le> sint f
          \<and> sint f + int entryWidth \<le> int (length (mmap idx)) \<longrightarrow>
        (\<exists>rel. binary_Read Encoding (take entryWidth (drop (nat (sint f)) (mmap idx))) = Some rel
           \<and> ReadEntryAtFileOffset idx e f = Inr (fill rel e (baseOffset idx))))
     \<and> (position idx = 0 \<and> es \<noteq> [] \<and> list_all (representable (baseOffset idx)) es
          \<and> entryWidth * length es \<le> length (mmap idx)
          \<and> int (length (mmap idx)) + int entryWidth < 2 ^ 63 \<longrightarrow>
        (\<exists>idx'. append_each idx es = Inr idx'
           \<and> ReadEntryAtLogOffset idx' e (word_of_nat (length es)) = Inl (Err EOF)
           \<and> ReadEntryAtLogOffset idx' e (word_of_nat (length es - 1)) = Inr (last es)))"
proof (intro conjI impI)
  have f: "sint (f + word_of_nat entryWidth) = sint f + 12"
    using assms by (intro sint_plus_width) (simp add: entryWidth_eq)
  then show "ReadEntryAtFileOffset idx e f = Inl (Err EOF) \<longleftrightarrow> sint (position idx) < sint f + int entryWidth"
    by (simp add: ReadEntryAtFileOffset_EOF_iff entryWidth_eq)
next
  assume a: "sint f + int entryWidth \<le> sint (position idx) \<and> 0 \<le> sint f
          \<and> sint f + int entryWidth \<le> int (length (mmap idx))"
  then have "f = word_of_nat (nat (sint f))" by (intro position_of_nat) simp
  moreover have "\<exists>rel. binary_Read Encoding (take 12 (drop (nat (sint f)) (mmap idx))) = Some rel \<and>
     ReadEntryAtFileOffset idx e (word_of_nat (nat (sint f))) = Inr (fill rel e (baseOffset idx))"
    using a by (intro ReadEntryAtFileOffset_inside) (auto simp: entryWidth_eq)
  ultimately show "\<exists>rel. binary_Read Encoding (take entryWidth (drop (nat (sint f)) (mmap idx))) = Some rel
           \<and> ReadEntryAtFileOffset idx e f = Inr (fill rel e (baseOffset idx))"
    by (simp add: entryWidth_eq)
next
  assume a: "position idx = 0 \<and> es \<noteq> [] \<and> list_all (representable (baseOffset idx)) es
          \<and> entryWidth * length es \<le> length (mmap idx)
          \<and> int (length (mmap idx)) + int entryWidth < 2 ^ 63"
  let ?k = "length es"
  let ?idx' = "idx\<lparr>mmap := concat (map (encode_entry (baseOffset idx)) es) @ drop (12 * ?k) (mmap idx),
              position := word_of_nat (12 * ?k)\<rparr>"
  have len: "length (mmap idx) + 12 < 2 ^ 63"
  proof -
    from a have "int (length (mmap idx) + 12) < 2 ^ 63" by (simp add: entryWidth_eq)
    then show ?thesis by (simp only: of_nat_less_numeral_power_cancel_iff)
  qed
  have fit: "12 * ?k \<le> length (mmap idx)" using a by (simp add: entryWidth_eq)
  have app: "append_each idx es = Inr ?idx'"
    using a fit len by (intro append_each_from_empty) simp_all
  have pos: "sint (position ?idx') = int (12 * ?k)"
    using fit len sint_word_of_nat_64 [of "12 * ?k"] by simp
  have "sint (word_of_nat ?k * word_of_nat entryWidth + word_of_nat entryWidth :: int64) = int (12 * ?k) + 12"
  proof -
    have "(word_of_nat ?k * word_of_nat entryWidth :: int64) = word_of_nat (12 * ?k)"
      by (simp add: entryWidth_eq)
    moreover have "sint (word_of_nat (12 * ?k) + word_of_nat entryWidth :: int64) = int (12 * ?k) + 12"
      using fit len by (intro sint_off_plus_width) simp
    ultimately show ?thesis by (simp only:)
  qed
  then have eof: "ReadEntryAtLogOffset ?idx' e (word_of_nat ?k) = Inl (Err EOF)"
    using pos by (simp add: ReadEntryAtLogOffset_def ReadEntryAtFileOffset_EOF_iff)
  obtain j where j: "?k = Suc j" using a by (cases es) auto
  have "slot_bytes (mmap ?idx') j = encode_entry (baseOffset idx) (es ! j)"
    using j by (simp add: slot_bytes_concat)
  moreover have "representable (baseOffset idx) (es ! j)"
    using a j by (simp add: list_all_length)
  moreover have "es ! j = last es"
    using a j by (simp add: last_conv_nth)
  ultimately have "ReadEntryAtLogOffset ?idx' e (word_of_nat j) = Inr (last es)"
    using j fit pos by (intro ReadEntryAtLogOffset_encoded) (simp_all add: length_concat_encode)
  moreover have "length es - 1 = j" using j by simp
  ultimately have "ReadEntryAtLogOffset ?idx' e (word_of_nat (length es - 1)) = Inr (last es)"
    by (simp only:)
  with app eof show "\<exists>idx'. append_each idx es = Inr idx'
           \<and> ReadEntryAtLogOffset idx' e (word_of_nat (length es)) = Inl (Err EOF)
           \<and> ReadEntryAtLogOffset idx' e (word_of_nat (length es - 1)) = Inr (last es)"
    by blast
qed

text \<open>On the empty index of three slots the read at byte offset 0 fails with \<open>io.EOF\<close>;
  after two single-entry appends slot 2 fails with \<open>io.EOF\<close> and slot 1 holds the second
  entry; and the read at byte offset 12 of the index with two entries returns it.\<close>

theorem ReadEntryAtFileOffset_boundary_witness:
  "sint (0 :: int64) + int entryWidth < 2 ^ 63 \<and> sint (12 :: int64) + int entryWidth < 2 ^ 63
   \<and> ReadEntryAtFileOffset idx_example zeroEntry 0 = Inl (Err EOF)
   \<and> (\<exists>idx'. append_each idx_example [entry_a, entry_b] = Inr idx'
         \<and> ReadEntryAtLogOffset idx' zeroEntry 2 = Inl (Err EOF)
         \<and> ReadEntryAtLogOffset idx' zeroEntry 1 = Inr entry_b)
   \<and> sint (12 :: int64) + int entryWidth \<le> sint (position idx_two) \<and> 0 \<le> sint (12 :: int64)
   \<and> sint (12 :: int64) + int entryWidth \<le> int (length (mmap idx_two))
   \<and> ReadEntryAtFileOffset idx_two zeroEntry 12 = Inr entry_b"
proof -
  have "ReadEntryAtFileOffset idx_example zeroEntry 0 = Inl (Err EOF)
     \<and> (\<exists>idx'. append_each idx_example [entry_a, entry_b] = Inr idx'
         \<and> ReadEntryAtLogOffset idx' zeroEntry 2 = Inl (Err EOF)
         \<and> ReadEntryAtLogOffset idx' zeroEntry 1 = Inr entry_b)"
    using ReadEntryAtFileOffset_boundary [of 0 idx_example zeroEntry "[entry_a, entry_b]"]
    by (simp add: entryWidth_eq idx_example_def representable_examples)
  moreover have "ReadEntryAtFileOffset idx_two zeroEntry 12 = Inr entry_b"
    using ReadEntryAtFileOffset_boundary [of 12 idx_two zeroEntry "[]"]
    by (simp add: entryWidth_eq idx_two_def idx_example_def length_encode_entry
          binary_Read_encode_entry fill_newRelEntry representable_examples)
  ultimately show ?thesis
    by (simp add: entryWidth_eq idx_two_def idx_example_def length_encode_entry)
qed

text \<open>The claim as stated fails in three ways. On an index of one slot, two single-entry
  appends from empty succeed and leave the write position at 24; the read of slot 1 then
  passes the check and panics on the slice \<open>idx.mmap[12:24]\<close> of a mapping of 12 bytes. On
  the empty index the read at byte offset -12 passes the check against write position 0
  and panics on \<open>idx.mmap[-12:0]\<close>. And at byte offset \<open>2^63 - 12\<close> the sum
  \<open>offset + entryWidth\<close> wraps to \<open>-2^63\<close>: the read does not fail with \<open>io.EOF\<close> though the true
  sum exceeds the write position, and panics.\<close>

theorem ReadEntryAtFileOffset_boundary_counterexample:
  "append_each idx_one_slot [entry_a, entry_b]
     = Inr (idx_one_slot\<lparr>mmap := encode_entry 100 entry_a, position := 24\<rparr>)
   \<and> ReadEntryAtLogOffset (idx_one_slot\<lparr>mmap := encode_entry 100 entry_a, position := 24\<rparr>) zeroEntry 1
       = Inl PanicSliceBounds
   \<and> ReadEntryAtFileOffset idx_example zeroEntry (- 12) = Inl PanicSliceBounds
   \<and> ReadEntryAtFileOffset idx_example zeroEntry 9223372036854775796 = Inl PanicSliceBounds"
proof -
  have "WriteEntries idx_one_slot [entry_a] = (Inr (), idx_one_slot\<lparr>mmap := encode_entry 100 entry_a, position := 12\<rparr>)"
    using WriteEntries_inside [of idx_one_slot 0 "[entry_a]"]
    by (simp add: idx_one_slot_def length_encode_entry)
  moreover have "WriteEntries (idx_one_slot\<lparr>mmap := encode_entry 100 entry_a, position := 12\<rparr>) [entry_b]
      = (Inr (), idx_one_slot\<lparr>mmap := encode_entry 100 entry_a, position := 24\<rparr>)"
    using WriteEntries_inside [of "idx_one_slot\<lparr>mmap := encode_entry 100 entry_a, position := 12\<rparr>" 12 "[entry_b]"]
    by (simp add: idx_one_slot_def length_encode_entry)
  ultimately have "append_each idx_one_slot [entry_a, entry_b]
     = Inr (idx_one_slot\<lparr>mmap := encode_entry 100 entry_a, position := 24\<rparr>)"
    by simp
  then show ?thesis
    by (simp add: ReadEntryAtLogOffset_def ReadEntryAtFileOffset_def ReadAt_def slice_def entryWidth_eq
          idx_one_slot_def idx_example_def length_encode_entry)
qed

subsection \<open>C4\<close>

text \<open>Claim C4 (TruncateEntries on a non-negative count), as amended. The source takes
  the product \<open>number * entryWidth\<close> in Go's \<open>int\<close>, where it wraps. For every
  non-negative count whose product with \<open>entryWidth\<close> is below \<open>2^63\<close>: the call fails with
  "bad truncate number" exactly when the product exceeds the write position, and then the
  index is as before; otherwise it succeeds, the write position is the product, and the
  mapped region and every other field are as before.\<close>

theorem TruncateEntries_in_range:
  assumes "0 \<le> sint number" and "sint number * int entryWidth < 2 ^ 63"
  shows "TruncateEntries idx number =
     (if sint (position idx) < sint number * int entryWidth
      then (Inl (Err ErrBadTruncate), idx)
      else (Inr (), idx\<lparr>position := number * word_of_nat entryWidth\<rparr>))
     \<and> sint (number * word_of_nat entryWidth :: int64) = sint number * int entryWidth"
proof -
  have "sint (number * word_of_nat entryWidth) = sint number * 12"
    using assms by (intro sint_mult_12) (simp_all add: entryWidth_eq)
  then show ?thesis
    by (simp add: TruncateEntries_def entryWidth_eq)
qed

text \<open>With two entries counted, truncating to one succeeds and truncating to three
  fails.\<close>

theorem TruncateEntries_in_range_witness:
  "0 \<le> sint (1 :: go_int) \<and> sint (1 :: go_int) * int entryWidth < 2 ^ 63
   \<and> TruncateEntries (idx_example\<lparr>position := 24\<rparr>) 1 = (Inr (), idx_example\<lparr>position := 12\<rparr>)
   \<and> TruncateEntries (idx_example\<lparr>position := 24\<rparr>) 3 = (Inl (Err ErrBadTruncate), idx_example\<lparr>position := 24\<rparr>)"
  using TruncateEntries_in_range [of 1 "idx_example\<lparr>position := 24\<rparr>"]
    TruncateEntries_in_range [of 3 "idx_example\<lparr>position := 24\<rparr>"]
  by (simp add: entryWidth_eq)

text \<open>The claim as stated fails where the product wraps: the count 768614336404564651 is
  non-negative and twelve times it exceeds the write position 0 of the empty index, but
  in 64 bits the product is \<open>-9223372036854775804\<close>, the check passes, and the call succeeds
  with that negative write position.\<close>

theorem TruncateEntries_overflow_counterexample:
  "0 \<le> sint (768614336404564651 :: go_int)
   \<and> sint (position idx_example) < sint (768614336404564651 :: go_int) * int entryWidth
   \<and> TruncateEntries idx_example 768614336404564651
       = (Inr (), idx_example\<lparr>position := - 9223372036854775804\<rparr>)"
  by (simp add: TruncateEntries_def entryWidth_eq idx_example_def)

subsection \<open>C5\<close>

text \<open>Claim C5 (truncate, then append), as amended: the \<open>k\<close> entries are to lie within
  the mapping and the first new entry is to fit the 32-bit fields. For every store that
  holds \<open>k\<close> entries (its write position is \<open>k * entryWidth\<close>, within the mapping), truncating to \<open>m < k\<close> entries and then
  appending \<open>j\<close> new entries succeeds and leaves the write position at
  \<open>(m + j) * entryWidth\<close>; with \<open>j \<ge> 1\<close>, reading slot \<open>m\<close> afterwards returns the first of
  the new entries (a representable one), whatever bytes the slot held before. The product
  \<open>(m + j) * entryWidth\<close> is taken to fit \<open>int64\<close>.\<close>

theorem truncate_then_append:
  assumes "position idx = word_of_nat (entryWidth * k)"
    and "entryWidth * k \<le> length (mmap idx)" and "length (mmap idx) < 2 ^ 63"
    and "m < k" and "entryWidth * (m + length new) < 2 ^ 63"
  shows "\<exists>idx1 idx2. TruncateEntries idx (word_of_nat m) = (Inr (), idx1)
     \<and> WriteEntries idx1 new = (Inr (), idx2)
     \<and> sint (position idx2) = int (entryWidth * (m + length new))
     \<and> (new \<noteq> [] \<and> representable (baseOffset idx) (hd new) \<longrightarrow>
          ReadEntryAtLogOffset idx2 e (word_of_nat m) = Inr (hd new))"
proof -
  let ?M = "mmap idx"
  let ?encs = "concat (map (encode_entry (baseOffset idx)) new)"
  let ?idx1 = "idx\<lparr>position := word_of_nat (12 * m)\<rparr>"
  let ?idx2 = "?idx1\<lparr>mmap := take (12 * m) ?M @ take (length ?M - 12 * m) ?encs
                   @ drop (12 * m + 12 * length new) ?M,
                 position := word_of_nat (12 * m + 12 * length new)\<rparr>"
  have k: "12 * k \<le> length ?M" and m: "12 * (m + 1) \<le> length ?M" and m': "12 * m \<le> length ?M"
    using assms by (simp_all add: entryWidth_eq)
  have "sint (word_of_nat m * word_of_nat entryWidth :: int64) = int (12 * m)"
    using assms by (intro sint_slot_offset) (simp add: entryWidth_eq)
  moreover have "sint (position idx) = int (12 * k)"
    using assms sint_word_of_nat_64 [of "12 * k"] by (simp add: entryWidth_eq)
  ultimately have t: "TruncateEntries idx (word_of_nat m) = (Inr (), ?idx1)"
    using assms by (simp add: TruncateEntries_def slot_offset_word)
  have w: "WriteEntries ?idx1 new = (Inr (), ?idx2)"
    using assms m' WriteEntries_inside [of ?idx1 "12 * m" new] by simp
  have p: "sint (position ?idx2) = int (12 * (m + length new))"
    using assms sint_word_of_nat_64 [of "12 * m + 12 * length new"] by (simp add: entryWidth_eq)
  have r: "ReadEntryAtLogOffset ?idx2 e (word_of_nat m) = Inr (hd new)"
    if "new \<noteq> []" "representable (baseOffset idx) (hd new)"
  proof -
    from that obtain x xs where new: "new = x # xs" by (cases new) auto
    have "slot_bytes (take (12 * m) ?M @ take (length ?M - 12 * m) ?encs
                   @ drop (12 * m + 12 * length new) ?M) (m + 0)
        = slot_bytes (take (length ?M - 12 * m) ?encs @ drop (12 * m + 12 * length new) ?M) 0"
      using m' by (intro slot_bytes_append_right) simp
    also have "\<dots> = encode_entry (baseOffset idx) x"
      using m by (simp add: new slot_bytes_def entryWidth_eq length_encode_entry)
    finally have "slot_bytes (mmap ?idx2) m = encode_entry (baseOffset ?idx2) (hd new)"
      by (simp add: new)
    moreover have "12 * (m + 1) \<le> length (mmap ?idx2)"
      using m m' by (simp add: length_concat_encode min_def)
    moreover have "12 * (int m + 1) \<le> sint (position ?idx2)"
      using p that by (cases new) simp_all
    ultimately show ?thesis
      using that by (intro ReadEntryAtLogOffset_encoded) simp_all
  qed
  from t w p r show ?thesis
    by (auto simp: entryWidth_eq)
qed

text \<open>In the index with two entries, truncating to one entry and appending the third
  entry of the scenario leaves the write position at 24 and the third entry in slot 1.\<close>

theorem truncate_then_append_witness:
  "position idx_two = word_of_nat (entryWidth * 2) \<and> entryWidth * 2 \<le> length (mmap idx_two)
   \<and> length (mmap idx_two) < 2 ^ 63 \<and> (1 :: nat) < 2 \<and> entryWidth * (1 + length [entry_c]) < 2 ^ 63
   \<and> representable (baseOffset idx_two) (hd [entry_c])
   \<and> (\<exists>idx1 idx2. TruncateEntries idx_two 1 = (Inr (), idx1)
        \<and> WriteEntries idx1 [entry_c] = (Inr (), idx2)
        \<and> sint (position idx2) = 24
        \<and> ReadEntryAtLogOffset idx2 zeroEntry 1 = Inr entry_c)"
  using truncate_then_append [of idx_two 2 1 "[entry_c]" zeroEntry]
  by (simp add: entryWidth_eq idx_two_def idx_example_def length_encode_entry representable_examples)

text \<open>The claim as stated fails in two ways. The index of one slot counts two entries
  after two appends; truncating it to one entry and appending a new one both succeed and
  leave the write position at 24, but the read of slot 1 panics on the slice
  \<open>idx.mmap[12:24]\<close> of a mapping of 12 bytes. And in the index with two entries,
  truncating to one entry and appending \<open>entry_wide\<close> leaves in slot 1 an entry with
  position 5, not the position \<open>2^32 + 5\<close> of the entry appended.\<close>

theorem truncate_then_append_counterexample:
  "append_each idx_one_slot [entry_a, entry_b] = Inr idx_overfilled
   \<and> TruncateEntries idx_overfilled 1 = (Inr (), idx_overfilled\<lparr>position := 12\<rparr>)
   \<and> WriteEntries (idx_overfilled\<lparr>position := 12\<rparr>) [entry_c] = (Inr (), idx_overfilled)
   \<and> ReadEntryAtLogOffset idx_overfilled zeroEntry 1 = Inl PanicSliceBounds
   \<and> TruncateEntries idx_two 1 = (Inr (), idx_two\<lparr>position := 12\<rparr>)
   \<and> WriteEntries (idx_two\<lparr>position := 12\<rparr>) [entry_wide]
       = (Inr (), idx_two\<lparr>mmap := encode_entry 100 entry_a @ encode_entry 100 entry_wide @ replicate 12 0\<rparr>)
   \<and> ReadEntryAtLogOffset
         (idx_two\<lparr>mmap := encode_entry 100 entry_a @ encode_entry 100 entry_wide @ replicate 12 0\<rparr>)
         zeroEntry 1
       = Inr \<lparr>Offset = 102, Position = 5, Size = 7\<rparr>"
  by code_simp

subsection \<open>C6\<close>

text \<open>Claim C6 (the sanity checks of InitializePosition). Whenever the search of
  InitializePosition returns a slot \<open>i > 0\<close>, the entry of slot \<open>i - 1\<close> is read again and
  decoded, the write position is \<open>i * entryWidth\<close>, and the call fails with ErrIndexCorrupt
  if and only if the decoded offset is below the base offset or the write position is not
  a multiple of \<open>entryWidth\<close>; otherwise it returns the decoded entry. An error result
  carries no entry. (The second test cannot fail here: the write position is
  \<open>i * entryWidth\<close> without wrap-around.)\<close>

theorem InitializePosition_sanity_checks:
  assumes "first_empty_slot idx = Some (Inr (i, s))" and "0 < sint i"
  shows "\<exists>rel. binary_Read Encoding (slot_bytes (mmap idx) (nat (sint i - 1))) = Some rel
     \<and> InitializePosition idx = Some
          (if sint (Offset (fill rel s (baseOffset idx))) < sint (baseOffset idx)
              \<or> go_mod (i * word_of_nat entryWidth) (word_of_nat entryWidth) \<noteq> 0
           then Inl (Err ErrIndexCorrupt)
           else Inr (Some (fill rel s (baseOffset idx))),
           idx\<lparr>position := i * word_of_nat entryWidth\<rparr>)
     \<and> sint (i * word_of_nat entryWidth :: int64) = sint i * int entryWidth"
proof -
  note p = first_empty_slot_positive [OF assms]
  let ?f = "(i - 1) * word_of_nat entryWidth :: int64"
  let ?p = "i * word_of_nat entryWidth :: int64"
  from p(3) obtain s0 s1 where rd: "ReadEntryAtFileOffset idx s0 ?f = Inr s1" by blast
  have i1: "sint (i - 1) = sint i - 1"
    using assms(2) p(2) sint_sub_64 [of i 1] by simp
  have sf: "sint ?f = (sint i - 1) * 12"
    using assms(2) p(2) i1 by (intro sint_mult_12 [THEN trans]) simp_all
  have sp: "sint ?p = sint i * 12"
    using assms(2) p(2) by (intro sint_mult_12) simp_all
  have fp: "?f + word_of_nat entryWidth = ?p"
    by (simp add: algebra_simps)
  have "\<exists>rel. binary_Read Encoding (take entryWidth (drop (nat (sint ?f)) (mmap idx))) = Some rel
     \<and> ReadEntryAtFileOffset (idx\<lparr>position := ?p\<rparr>) s ?f = Inr (fill rel s (baseOffset idx))"
    using rd by (rule ReadEntryAtFileOffset_again) (simp add: fp)
  moreover have "nat (sint ?f) = entryWidth * nat (sint i - 1)"
  proof -
    have "nat ((sint i - 1) * 12) = 12 * nat (sint i - 1)"
      using assms(2) by (simp add: nat_mult_distrib)
    then show ?thesis unfolding sf by (simp only: entryWidth_eq)
  qed
  ultimately obtain rel where rel: "binary_Read Encoding (slot_bytes (mmap idx) (nat (sint i - 1))) = Some rel"
    and again: "ReadEntryAtFileOffset (idx\<lparr>position := ?p\<rparr>) s ?f = Inr (fill rel s (baseOffset idx))"
    by (auto simp: slot_bytes_def)
  have "i \<noteq> 0" using assms(2) by auto
  then have "InitializePosition idx = Some
          (if sint (Offset (fill rel s (baseOffset idx))) < sint (baseOffset idx)
              \<or> go_mod ?p (word_of_nat entryWidth) \<noteq> 0
           then Inl (Err ErrIndexCorrupt)
           else Inr (Some (fill rel s (baseOffset idx))),
           idx\<lparr>position := ?p\<rparr>)"
    using assms(1) again by (simp add: InitializePosition_def position_from_slot_def Let_def)
  with rel sp show ?thesis by (auto simp: entryWidth_eq)
qed

text \<open>On the reopened index with two entries the search returns slot 2, and the call
  returns the second entry with the write position at 24. On the index whose slot 0
  decodes to offset 99 under base offset 100, the search returns slot 1 and the call
  fails with ErrIndexCorrupt, the write position at 12.\<close>

theorem InitializePosition_sanity_checks_witness:
  "first_empty_slot idx_reopened = Some (Inr (2, \<lparr>Offset = 100, Position = 0, Size = 0\<rparr>))
   \<and> 0 < sint (2 :: go_int)
   \<and> InitializePosition idx_reopened = Some (Inr (Some entry_b), idx_reopened\<lparr>position := 24\<rparr>)
   \<and> first_empty_slot idx_corrupt = Some (Inr (1, \<lparr>Offset = 99, Position = 7, Size = 7\<rparr>))
   \<and> 0 < sint (1 :: go_int)
   \<and> InitializePosition idx_corrupt = Some (Inl (Err ErrIndexCorrupt), idx_corrupt\<lparr>position := 12\<rparr>)"
proof -
  have "InitializePosition idx_reopened = Some (Inr (Some entry_b), idx_reopened\<lparr>position := 24\<rparr>)"
    using InitializePosition_sanity_checks [OF first_empty_slot_reopened]
    by (simp add: idx_reopened_def idx_two_def idx_example_def slot_bytes_def entryWidth_eq
          length_encode_entry binary_Read_encode_entry fill_newRelEntry representable_examples
          go_mod_def signed_modulo_int_def)
       (simp add: entry_b_def)
  moreover have "InitializePosition idx_corrupt = Some (Inl (Err ErrIndexCorrupt), idx_corrupt\<lparr>position := 12\<rparr>)"
    using InitializePosition_sanity_checks [OF first_empty_slot_corrupt]
    by (simp add: idx_corrupt_def idx_example_def slot_bytes_def entryWidth_eq
          length_encode_entry binary_Read_encode_entry fill_newRelEntry representable_def)
  ultimately show ?thesis
    using first_empty_slot_reopened first_empty_slot_corrupt by simp
qed

subsection \<open>C7\<close>

text \<open>Claim C7 (the scanner yields the entries, then ends), as amended. Scan tests the
  decoded, absolute offset of the entry against 0, not the relative offset in the slot.
  For every store that holds exactly \<open>k\<close> appended entries (representable ones, appended
  one by one from write position 0 and within the mapping), where no slot other than
  possibly slot 0 holds an entry whose absolute logical offset is 0, the first \<open>k\<close> calls of
  Scan on a new scanner return the \<open>k\<close> entries in append order and the next call fails
  with \<open>io.EOF\<close>.\<close>

theorem scanner_yields_entries:
  assumes "position idx0 = 0" and "entryWidth * length es \<le> length (mmap idx0)"
    and "int (length (mmap idx0)) + int entryWidth < 2 ^ 63"
    and "list_all (representable (baseOffset idx0)) es"
    and "list_all (\<lambda>e. Offset e \<noteq> 0) (tl es)"
  shows "\<exists>idx. append_each idx0 es = Inr idx
     \<and> scan_n idx NewIndexScanner (Suc (length es)) = map Inr es @ [Inl (Err EOF)]"
proof -
  let ?idx = "idx0\<lparr>mmap := concat (map (encode_entry (baseOffset idx0)) es) @ drop (12 * length es) (mmap idx0),
              position := word_of_nat (12 * length es)\<rparr>"
  have len: "length (mmap idx0) + 12 < 2 ^ 63"
  proof -
    from assms(3) have "int (length (mmap idx0) + 12) < 2 ^ 63" by (simp add: entryWidth_eq)
    then show ?thesis by (simp only: of_nat_less_numeral_power_cancel_iff)
  qed
  have fit: "12 * length es \<le> length (mmap idx0)" using assms(2) by (simp add: entryWidth_eq)
  have app: "append_each idx0 es = Inr ?idx"
    using assms(1) fit len by (intro append_each_from_empty) simp_all
  have nz: "Offset (es ! j) \<noteq> 0" if "0 < j" "j < length es" for j
  proof -
    from that obtain i where "j = Suc i" by (cases j) auto
    with that assms(5) show ?thesis
      by (cases es) (simp_all add: list_all_length)
  qed
  have "scan_n ?idx NewIndexScanner (Suc (length es - 0)) = map Inr (drop 0 es) @ [Inl (Err EOF)]"
  proof (rule scan_n_from)
    show "position ?idx = word_of_nat (12 * length es)" by simp
    show "12 * length es \<le> length (mmap ?idx)" using fit by (simp add: length_concat_encode)
    show "12 * length es + 12 < 2 ^ 63" using fit len by simp
    show "slot_bytes (mmap ?idx) j = encode_entry (baseOffset ?idx) (es ! j)" if "j < length es" for j
      using that by (simp add: slot_bytes_concat)
    show "representable (baseOffset ?idx) (es ! j)" if "j < length es" for j
      using that assms(4) by (simp add: list_all_length)
    show "Offset (es ! j) \<noteq> 0" if "0 < j" "j < length es" for j
      using that by (rule nz)
    show "offset NewIndexScanner = word_of_nat 0" by (simp add: NewIndexScanner_def)
    show "0 \<le> length es" by simp
  qed
  with app show ?thesis by simp
qed

text \<open>The scenario of the spec: the three entries appended to the empty index are
  scanned in order, and the fourth call ends the scan.\<close>

theorem scanner_yields_entries_witness:
  "position idx_example = 0 \<and> entryWidth * length [entry_a, entry_b, entry_c] \<le> length (mmap idx_example)
   \<and> int (length (mmap idx_example)) + int entryWidth < 2 ^ 63
   \<and> list_all (representable (baseOffset idx_example)) [entry_a, entry_b, entry_c]
   \<and> list_all (\<lambda>e. Offset e \<noteq> 0) (tl [entry_a, entry_b, entry_c])
   \<and> (\<exists>idx. append_each idx_example [entry_a, entry_b, entry_c] = Inr idx
        \<and> scan_n idx NewIndexScanner (Suc (length [entry_a, entry_b, entry_c]))
            = map Inr [entry_a, entry_b, entry_c] @ [Inl (Err EOF)])"
proof -
  have h1: "position idx_example = 0"
    by (simp add: idx_example_def)
  have h2: "entryWidth * length [entry_a, entry_b, entry_c] \<le> length (mmap idx_example)"
    by (simp add: idx_example_def entryWidth_eq)
  have h3: "int (length (mmap idx_example)) + int entryWidth < 2 ^ 63"
    by (simp add: idx_example_def entryWidth_eq)
  have h4: "list_all (representable (baseOffset idx_example)) [entry_a, entry_b, entry_c]"
    by (simp add: idx_example_def representable_examples)
  have h5: "list_all (\<lambda>e. Offset e \<noteq> 0) (tl [entry_a, entry_b, entry_c])"
    by (simp add: entry_b_def entry_c_def)
  from h1 h2 h3 h4 h5 scanner_yields_entries [OF h1 h2 h3 h4 h5] show ?thesis
    by blast
qed

text \<open>The claim as stated fails over a negative base offset. With base offset -1 the
  entries with the offsets -1 and 0 are in increasing order, and the second one is stored
  in slot 1 with the relative offset 1, not 0; but it decodes to the absolute offset 0,
  so the second Scan fails with \<open>io.EOF\<close> instead of returning it.\<close>

theorem scanner_yields_entries_counterexample:
  "sint (baseOffset idx_neg) \<le> sint (Offset neg_a) \<and> sint (Offset neg_a) < sint (Offset neg_b)
   \<and> rel_Offset (newRelEntry neg_b (baseOffset idx_neg)) = 1
   \<and> append_each idx_neg [neg_a, neg_b] = Inr idx_neg_two
   \<and> scan_n idx_neg_two NewIndexScanner 2 = [Inr neg_a, Inl (Err EOF)]"
proof -
  have rep: "representable (- 1) neg_a" "representable (- 1) neg_b"
    by (simp_all add: representable_def neg_a_def neg_b_def)
  have app: "append_each idx_neg [neg_a, neg_b] = Inr idx_neg_two"
    using append_each_from_empty [of idx_neg "[neg_a, neg_b]"]
    by (simp add: idx_neg_def idx_neg_two_def)
  have r0: "ReadEntryAtLogOffset idx_neg_two zeroEntry (word_of_nat 0) = Inr neg_a"
    using rep by (intro ReadEntryAtLogOffset_encoded)
      (simp_all add: idx_neg_two_def idx_neg_def length_encode_entry slot_bytes_def entryWidth_eq)
  have r1: "ReadEntryAtLogOffset idx_neg_two neg_a (word_of_nat 1) = Inr neg_b"
    using rep by (intro ReadEntryAtLogOffset_encoded)
      (simp_all add: idx_neg_two_def idx_neg_def length_encode_entry slot_bytes_def entryWidth_eq)
  have s0: "Scan idx_neg_two NewIndexScanner = (Inr neg_a, \<lparr>entry = neg_a, offset = 1\<rparr>)"
    using r0 by (simp add: Scan_def NewIndexScanner_def)
  have s1: "Scan idx_neg_two \<lparr>entry = neg_a, offset = 1\<rparr> = (Inl (Err EOF), \<lparr>entry = neg_b, offset = 1\<rparr>)"
    using r1 by (simp add: Scan_def neg_b_def)
  have "scan_n idx_neg_two NewIndexScanner (Suc (Suc 0)) = [Inr neg_a, Inl (Err EOF)]"
    by (simp add: s0 s1)
  then have "scan_n idx_neg_two NewIndexScanner 2 = [Inr neg_a, Inl (Err EOF)]"
    by (simp only: numeral_2_eq_2)
  with app show ?thesis
    by (simp add: idx_neg_def neg_a_def neg_b_def newRelEntry_def)
qed

subsection \<open>C8\<close>

text \<open>Claim C8 (the scanner's slot counter), as amended. Scan advances the counter by
  exactly one (in \<open>int64\<close>) when it returns an entry, and leaves it as it was when it
  fails: when the read fails, as with \<open>io.EOF\<close> past the write position, and when the
  zero-offset test ends the sequence. Both failures return before \<open>s.offset++\<close>.\<close>

theorem Scan_counter:
  "offset (snd (Scan idx s)) = (if isl (fst (Scan idx s)) then offset s else offset s + 1)"
  by (simp add: Scan_def split: sum.split)

text \<open>The claim as stated fails on the empty index: the first Scan of a new scanner
  fails with \<open>io.EOF\<close> and the counter is still 0.\<close>

theorem Scan_counter_counterexample:
  "fst (Scan idx_example NewIndexScanner) = Inl (Err EOF)
   \<and> offset (snd (Scan idx_example NewIndexScanner)) = offset NewIndexScanner"
  by (simp add: Scan_def ReadEntryAtLogOffset_def ReadEntryAtFileOffset_def ReadAt_def
        NewIndexScanner_def idx_example_def entryWidth_eq)

subsection \<open>C9\<close>

text \<open>Claim C9 (TruncateEntries on a negative count), as amended. For every negative count
  \<open>n\<close> whose product \<open>n * entryWidth\<close> does not wrap (it is at least \<open>-2^63\<close>) and does not
  exceed the write position (so always when the write position is not negative), the
  call succeeds and sets the write position to the negative value \<open>n * entryWidth\<close>; after
  it, every read at a byte offset \<open>f \<ge> 0\<close> (with \<open>f + entryWidth\<close> below \<open>2^63\<close>) fails with
  \<open>io.EOF\<close>.\<close>

theorem TruncateEntries_negative:
  assumes "sint n < 0" and "- (2 ^ 63) \<le> sint n * int entryWidth"
    and "sint n * int entryWidth \<le> sint (position idx)"
    and "0 \<le> sint f" and "sint f + int entryWidth < 2 ^ 63"
  shows "TruncateEntries idx n = (Inr (), idx\<lparr>position := n * word_of_nat entryWidth\<rparr>)
     \<and> sint (n * word_of_nat entryWidth :: int64) = sint n * int entryWidth
     \<and> sint (n * word_of_nat entryWidth :: int64) < 0
     \<and> ReadEntryAtFileOffset (idx\<lparr>position := n * word_of_nat entryWidth\<rparr>) e f = Inl (Err EOF)"
proof -
  have p: "sint (n * word_of_nat entryWidth) = sint n * 12"
    using assms by (intro sint_mult_12) (simp_all add: entryWidth_eq)
  have f: "sint (f + word_of_nat entryWidth) = sint f + 12"
    using assms by (intro sint_plus_width) (simp add: entryWidth_eq)
  have "TruncateEntries idx n = (Inr (), idx\<lparr>position := n * word_of_nat entryWidth\<rparr>)"
    using assms p by (simp add: TruncateEntries_def entryWidth_eq)
  moreover have "ReadEntryAtFileOffset (idx\<lparr>position := n * word_of_nat entryWidth\<rparr>) e f = Inl (Err EOF)"
    using assms p f by (simp add: ReadEntryAtFileOffset_EOF_iff)
  ultimately show ?thesis using p assms by (simp add: entryWidth_eq)
qed

text \<open>On the empty index, TruncateEntries(-1) sets the write position to -12, and the
  read of slot 0 then fails with \<open>io.EOF\<close>.\<close>

theorem TruncateEntries_negative_witness:
  "sint (- 1 :: go_int) < 0 \<and> - (2 ^ 63) \<le> sint (- 1 :: go_int) * int entryWidth
   \<and> sint (- 1 :: go_int) * int entryWidth \<le> sint (position idx_example)
   \<and> 0 \<le> sint (0 :: int64) \<and> sint (0 :: int64) + int entryWidth < 2 ^ 63
   \<and> TruncateEntries idx_example (- 1) = (Inr (), idx_example\<lparr>position := - 12\<rparr>)
   \<and> ReadEntryAtFileOffset (idx_example\<lparr>position := - 12\<rparr>) zeroEntry 0 = Inl (Err EOF)"
  using TruncateEntries_negative [of "- 1" idx_example 0 zeroEntry]
  by (simp add: entryWidth_eq idx_example_def)

text \<open>The claim as stated fails in three ways. After TruncateEntries(-2) the write
  position is -24, and TruncateEntries(-1) fails with "bad truncate number", as -12
  exceeds -24. On the empty index the negative count -768614336404564651 fails too: its
  product wraps to a positive number. And after TruncateEntries(-1), the read at byte
  offset -24 passes the check against the write position -12 and panics on the slice
  \<open>idx.mmap[-24:-12]\<close>, which is not \<open>io.EOF\<close>.\<close>

theorem TruncateEntries_negative_counterexample:
  "sint (- 1 :: go_int) < 0
   \<and> TruncateEntries (snd (TruncateEntries idx_example (- 2))) (- 1)
       = (Inl (Err ErrBadTruncate), idx_example\<lparr>position := - 24\<rparr>)
   \<and> sint (- 768614336404564651 :: go_int) < 0
   \<and> TruncateEntries idx_example (- 768614336404564651) = (Inl (Err ErrBadTruncate), idx_example)
   \<and> ReadEntryAtFileOffset (snd (TruncateEntries idx_example (- 1))) zeroEntry (- 24) = Inl PanicSliceBounds"
  by (simp add: TruncateEntries_def ReadEntryAtFileOffset_def ReadAt_def slice_def entryWidth_eq idx_example_def)

subsection \<open>C10\<close>

text \<open>Claim C10 (WriteEntries has no capacity check), as amended. Whenever the write
  position lies in the mapped region (\<open>0 \<le> position \<le> len(mmap)\<close>), WriteEntries returns
  success for every sequence of entries and advances the write position by
  \<open>entryWidth * len(entries)\<close> (in \<open>int64\<close>; by that number itself where it does not
  wrap), also beyond the length of the mapping; the encoded bytes are copied up to the
  end of the region and cut off there, and the length of the mapping stays.\<close>

theorem WriteEntries_no_capacity_check:
  assumes "0 \<le> sint (position idx)" and "sint (position idx) \<le> int (length (mmap idx))"
  shows "WriteEntries idx entries =
     (Inr (),
      idx\<lparr>mmap := take (nat (sint (position idx))) (mmap idx)
              @ take (length (mmap idx) - nat (sint (position idx)))
                  (concat (map (encode_entry (baseOffset idx)) entries))
              @ drop (nat (sint (position idx)) + entryWidth * length entries) (mmap idx),
          position := position idx + word_of_nat entryWidth * word_of_nat (length entries)\<rparr>)
     \<and> length (mmap (snd (WriteEntries idx entries))) = length (mmap idx)
     \<and> (sint (position idx) + int (entryWidth * length entries) < 2 ^ 63 \<longrightarrow>
          sint (position (snd (WriteEntries idx entries)))
            = sint (position idx) + int (entryWidth * length entries))"
proof -
  have enc: "(\<lambda>entry. binary_Write Encoding (newRelEntry entry (baseOffset idx))) = encode_entry (baseOffset idx)"
    by (simp add: encode_entry_def fun_eq_iff)
  have w: "WriteEntries idx entries =
     (Inr (),
      idx\<lparr>mmap := take (nat (sint (position idx))) (mmap idx)
              @ take (length (mmap idx) - nat (sint (position idx)))
                  (concat (map (encode_entry (baseOffset idx)) entries))
              @ drop (nat (sint (position idx)) + entryWidth * length entries) (mmap idx),
          position := position idx + word_of_nat entryWidth * word_of_nat (length entries)\<rparr>)"
    using WriteAt_general [OF assms, of "concat (map (encode_entry (baseOffset idx)) entries)"]
    by (simp add: WriteEntries_def Let_def enc length_concat_encode entryWidth_eq)
  have len: "length (mmap (snd (WriteEntries idx entries))) = length (mmap idx)"
    using assms by (simp add: w length_concat_encode entryWidth_eq min_def nat_le_iff)
  have adv: "sint (position (snd (WriteEntries idx entries)))
            = sint (position idx) + int (entryWidth * length entries)"
    if "sint (position idx) + int (entryWidth * length entries) < 2 ^ 63"
  proof -
    have "sint (word_of_nat entryWidth * word_of_nat (length entries) :: int64) = int (entryWidth * length entries)"
      using that assms(1) sint_word_of_nat_64 [of "entryWidth * length entries"]
      by (simp add: entryWidth_eq)
    then show ?thesis
      using that assms(1) sint_add_64 [of "position idx" "word_of_nat entryWidth * word_of_nat (length entries)"]
      by (simp add: w entryWidth_eq)
  qed
  from w len adv show ?thesis by blast
qed

text \<open>Four entries into the empty index of three slots: the write position becomes 48,
  and the region holds the first three.\<close>

theorem WriteEntries_no_capacity_check_witness:
  "0 \<le> sint (position idx_example) \<and> sint (position idx_example) \<le> int (length (mmap idx_example))
   \<and> WriteEntries idx_example [entry_a, entry_b, entry_c, entry_c]
      = (Inr (), idx_example\<lparr>mmap := concat (map (encode_entry 100) [entry_a, entry_b, entry_c]), position := 48\<rparr>)
   \<and> sint (position (snd (WriteEntries idx_example [entry_a, entry_b, entry_c, entry_c]))) = 48"
  using WriteEntries_no_capacity_check [of idx_example "[entry_a, entry_b, entry_c, entry_c]"]
  by (simp add: idx_example_def entryWidth_eq length_encode_entry)

text \<open>The claim as stated fails once the write position is beyond the mapping: after the
  four entries above it is 48 on a mapping of 36 bytes, and the next WriteEntries panics
  on the slice \<open>idx.mmap[48:]\<close>.\<close>

theorem WriteEntries_no_capacity_check_counterexample:
  "fst (WriteEntries idx_example [entry_a, entry_b, entry_c, entry_c]) = Inr ()
   \<and> position (snd (WriteEntries idx_example [entry_a, entry_b, entry_c, entry_c])) = 48
   \<and> length (mmap (snd (WriteEntries idx_example [entry_a, entry_b, entry_c, entry_c]))) = 36
   \<and> fst (WriteEntries (snd (WriteEntries idx_example [entry_a, entry_b, entry_c, entry_c])) [entry_c])
       = Inl PanicSliceBounds"
proof -
  have "WriteEntries idx_example [entry_a, entry_b, entry_c, entry_c]
      = (Inr (), idx_example\<lparr>mmap := concat (map (encode_entry 100) [entry_a, entry_b, entry_c]), position := 48\<rparr>)"
    using WriteEntries_inside [of idx_example 0 "[entry_a, entry_b, entry_c, entry_c]"]
    by (simp add: idx_example_def length_encode_entry)
  then show ?thesis
    by (simp add: WriteEntries_def WriteAt_def slice_from_def slice_def idx_example_def length_encode_entry)
qed

end
